theory Spec2Isabelle
  imports Complex_Main "HOL-Library.Word"
begin

unbundle bit_operations_syntax

section \<open>Complex numbers (math-extensions.ts, class Complex)\<close>

text \<open>
  A JavaScript \<open>number\<close> is modelled as a \<^typ>\<open>real\<close>: the arithmetic of this
  section is exact, rounding and the special values of IEEE doubles are not modelled.
  The fields \<open>real\<close> and \<open>imag\<close> of the class are \<open>real_part\<close> and \<open>imag_part\<close>.
  The product of a number with its conjugate, which overflow decides, is treated over
  doubles in the two sections that follow.
\<close>

record ComplexNumber =
  real_part :: real
  imag_part :: real

definition Complex_new :: "real \<Rightarrow> real \<Rightarrow> ComplexNumber" where
  "Complex_new r i = \<lparr>real_part = r, imag_part = i\<rparr>"

definition add :: "ComplexNumber \<Rightarrow> ComplexNumber \<Rightarrow> ComplexNumber" where
  "add this other =
     Complex_new (real_part this + real_part other) (imag_part this + imag_part other)"

definition multiply :: "ComplexNumber \<Rightarrow> ComplexNumber \<Rightarrow> ComplexNumber" where
  "multiply this other =
     Complex_new (real_part this * real_part other - imag_part this * imag_part other)
                 (real_part this * imag_part other + imag_part this * real_part other)"

definition conjugate :: "ComplexNumber \<Rightarrow> ComplexNumber" where
  "conjugate this = Complex_new (real_part this) (- imag_part this)"

definition magnitudeSquared :: "ComplexNumber \<Rightarrow> real" where
  "magnitudeSquared this = real_part this * real_part this + imag_part this * imag_part this"

definition magnitude :: "ComplexNumber \<Rightarrow> real" where
  "magnitude this = sqrt (magnitudeSquared this)"

definition clone :: "ComplexNumber \<Rightarrow> ComplexNumber" where
  "clone this = Complex_new (real_part this) (imag_part this)"


section \<open>IEEE doubles (the type \<open>number\<close> of JavaScript)\<close>

text \<open>
  Where overflow decides a property, a \<open>number\<close> is a double of IEEE 754 (binary64): a
  finite value, one of the two infinities, or NaN. The sign of a zero is not kept: no
  operation used here tells \<open>-0\<close> from \<open>+0\<close>, and \<open>==\<close> does not either.
\<close>

datatype double = Finite real | PlusInfinity | MinusInfinity | NaN

text \<open>
  The result of an operation on finite values is the exact result, rounded to the nearest
  double, ties to even: a double is a multiple \<open>m * 2^q\<close> with \<open>|m| < 2^53\<close> and
  \<open>-1074 \<le> q\<close>, and for \<open>2^e \<le> |x| < 2^(e+1)\<close> the spacing of the doubles around \<open>x\<close>
  is \<open>2^(e-52)\<close> (\<open>2^(-1074)\<close> for the subnormal numbers). The largest double is
  \<open>2^1024 - 2^971\<close>; an exact result of magnitude \<open>2^1024 - 2^970\<close> or more overflows to
  the infinity of its sign.
\<close>

definition round_half_even :: "real \<Rightarrow> int" where
  "round_half_even y =
     (let f = \<lfloor>y\<rfloor>; r = y - of_int f in
      if r < 1 / 2 then f else if 1 / 2 < r then f + 1 else if even f then f else f + 1)"

definition nearest_double :: "real \<Rightarrow> real" where
  "nearest_double x =
     (let q = max (\<lfloor>log 2 \<bar>x\<bar>\<rfloor> - 52) (- 1074)
      in sgn x * (of_int (round_half_even (\<bar>x\<bar> / 2 powr of_int q)) * 2 powr of_int q))"

definition overflow_threshold :: real where
  "overflow_threshold = 2 ^ 1024 - 2 ^ 970"

definition round_double :: "real \<Rightarrow> double" where
  "round_double x =
     (if overflow_threshold \<le> x then PlusInfinity
      else if x \<le> - overflow_threshold then MinusInfinity
      else Finite (nearest_double x))"

text \<open>
  Unary minus, \<open>*\<close>, \<open>+\<close> and binary \<open>-\<close>. NaN is absorbing; \<open>Infinity * 0\<close> and
  \<open>Infinity - Infinity\<close> are NaN; \<open>x - y\<close> is \<open>x + (-y)\<close>.
\<close>

fun d_neg :: "double \<Rightarrow> double" where
  "d_neg (Finite a) = Finite (- a)"
| "d_neg PlusInfinity = MinusInfinity"
| "d_neg MinusInfinity = PlusInfinity"
| "d_neg NaN = NaN"

fun d_sign :: "double \<Rightarrow> real" where
  "d_sign (Finite a) = sgn a"
| "d_sign PlusInfinity = 1"
| "d_sign MinusInfinity = - 1"
| "d_sign NaN = 0"

fun d_mul :: "double \<Rightarrow> double \<Rightarrow> double" where
  "d_mul NaN y = NaN"
| "d_mul x NaN = NaN"
| "d_mul (Finite a) (Finite b) = round_double (a * b)"
| "d_mul x y =
     (if d_sign x * d_sign y = 0 then NaN
      else if 0 < d_sign x * d_sign y then PlusInfinity
      else MinusInfinity)"

fun d_add :: "double \<Rightarrow> double \<Rightarrow> double" where
  "d_add NaN y = NaN"
| "d_add x NaN = NaN"
| "d_add (Finite a) (Finite b) = round_double (a + b)"
| "d_add PlusInfinity MinusInfinity = NaN"
| "d_add MinusInfinity PlusInfinity = NaN"
| "d_add (Finite a) y = y"
| "d_add x y = x"

definition d_sub :: "double \<Rightarrow> double \<Rightarrow> double" where
  "d_sub x y = d_add x (d_neg y)"

text \<open>
  \<open>x == y\<close> on numbers: false as soon as one side is NaN. \<open>is_finite\<close> is
  \<open>Number.isFinite\<close>.
\<close>

definition js_eq :: "double \<Rightarrow> double \<Rightarrow> bool" where
  "js_eq x y \<longleftrightarrow> x \<noteq> NaN \<and> y \<noteq> NaN \<and> x = y"

definition is_finite :: "double \<Rightarrow> bool" where
  "is_finite x = (case x of Finite a \<Rightarrow> True | _ \<Rightarrow> False)"

section \<open>Complex numbers over doubles (math-extensions.ts, class Complex)\<close>

text \<open>
  The methods \<open>multiply\<close>, \<open>conjugate\<close> and \<open>magnitudeSquared\<close> of the class, with the
  fields \<open>real\<close> and \<open>imag\<close> holding doubles (\<open>real_double\<close>, \<open>imag_double\<close>) and the
  operators of the source read as the operations on doubles, in the order of the source.
\<close>

record ComplexDouble =
  real_double :: double
  imag_double :: double

definition multiply_double :: "ComplexDouble \<Rightarrow> ComplexDouble \<Rightarrow> ComplexDouble" where
  "multiply_double this other =
     \<lparr>real_double = d_sub (d_mul (real_double this) (real_double other))
                          (d_mul (imag_double this) (imag_double other)),
      imag_double = d_add (d_mul (real_double this) (imag_double other))
                          (d_mul (imag_double this) (real_double other))\<rparr>"

definition conjugate_double :: "ComplexDouble \<Rightarrow> ComplexDouble" where
  "conjugate_double this = \<lparr>real_double = real_double this, imag_double = d_neg (imag_double this)\<rparr>"

definition magnitudeSquared_double :: "ComplexDouble \<Rightarrow> double" where
  "magnitudeSquared_double this =
     d_add (d_mul (real_double this) (real_double this)) (d_mul (imag_double this) (imag_double this))"


section \<open>Errors and loops\<close>

text \<open>
  The exceptions the code can raise: the \<open>Error\<close> thrown by \<open>multiplyVector\<close>
  (DimensionMismatch), the \<open>TypeError\<close> of a method call or an index on \<open>undefined\<close>,
  and the \<open>RangeError\<close> of \<open>new Array\<close> with a negative length.

  Arrays are lists, of any length: the platform's limit on the length of an array
  (\<open>2^32 - 1\<close>) is, like its memory, not modelled. Array indices, sizes and qubit counts
  are natural numbers; the result of a 32-bit operator is an integer.
\<close>

datatype error = DimensionMismatch | TypeError | RangeError

definition bind :: "error + 'a \<Rightarrow> ('a \<Rightarrow> error + 'b) \<Rightarrow> error + 'b" where
  "bind m f = (case m of Inl e \<Rightarrow> Inl e | Inr x \<Rightarrow> f x)"

text \<open>
  \<open>for (let i = 0; i < n; i++) body\<close> is \<open>for_loop [0..<n] body\<close>: the body maps the
  loop's state to the next one, and an exception in the body leaves the loop.
\<close>

fun for_loop :: "'i list \<Rightarrow> ('i \<Rightarrow> 's \<Rightarrow> error + 's) \<Rightarrow> 's \<Rightarrow> error + 's" where
  "for_loop [] body s = Inr s"
| "for_loop (i # rest) body s =
     (case body i s of Inl e \<Rightarrow> Inl e | Inr s' \<Rightarrow> for_loop rest body s')"

section \<open>32-bit integer operators of JavaScript\<close>

text \<open>
  \<open>a << b\<close>, \<open>a >> b\<close>, \<open>a & b\<close> and \<open>a ^ b\<close> convert their operands to 32-bit
  integers, use the low five bits of the shift count, and return a signed 32-bit result.
\<close>

definition js_shl :: "int \<Rightarrow> nat \<Rightarrow> int" where
  "js_shl a b = sint (push_bit (b mod 32) (word_of_int a :: 32 word))"

definition js_shr :: "int \<Rightarrow> nat \<Rightarrow> int" where
  "js_shr a b = sint (signed_drop_bit (b mod 32) (word_of_int a :: 32 word))"

definition js_and :: "int \<Rightarrow> int \<Rightarrow> int" where
  "js_and a b = sint ((word_of_int a :: 32 word) AND word_of_int b)"

definition js_xor :: "int \<Rightarrow> int \<Rightarrow> int" where
  "js_xor a b = sint ((word_of_int a :: 32 word) XOR word_of_int b)"

section \<open>Matrices (math-extensions.ts, class Matrix)\<close>

record Matrix =
  data :: "ComplexNumber list list"

text \<open>
  \<open>identity\<close> fills the rows in order, entry by entry: row \<open>i\<close> has \<open>1\<close> at column \<open>i\<close>
  and \<open>0\<close> at the other columns below \<open>size\<close>.
\<close>

definition identity :: "nat \<Rightarrow> Matrix" where
  "identity sz =
     \<lparr>data = map (\<lambda>i. map (\<lambda>j. if i = j then Complex_new 1 0 else Complex_new 0 0) [0..<sz])
                  [0..<sz]\<rparr>"

definition getDimensions :: "Matrix \<Rightarrow> nat \<times> nat" where
  "getDimensions this =
     (let rows = length (data this);
          cols = (if rows > 0 then length (data this ! 0) else 0)
      in (rows, cols))"

text \<open>
  The read \<open>this.data[i][j]\<close>: \<open>undefined\<close> (here \<open>None\<close>) outside the row; calling a
  method on it, or reading a field of it, raises a TypeError.
\<close>

definition element :: "Matrix \<Rightarrow> nat \<Rightarrow> nat \<Rightarrow> ComplexNumber option" where
  "element this i j =
     (if i < length (data this) \<and> j < length (data this ! i) then Some (data this ! i ! j)
      else None)"

text \<open>
  The invariant of a matrix in the data model: all rows have the same length, the
  column count \<open>getDimensions\<close> reads from the first row. The constructor does not check it.
\<close>

definition rectangular :: "Matrix \<Rightarrow> bool" where
  "rectangular m = list_all (\<lambda>row. length row = snd (getDimensions m)) (data m)"

definition multiplyVector :: "Matrix \<Rightarrow> ComplexNumber list \<Rightarrow> error + ComplexNumber list" where
  "multiplyVector this v =
     (let (rows, cols) = getDimensions this in
      if length v \<noteq> cols then Inl DimensionMismatch
      else
        for_loop [0..<rows] (\<lambda>i.
          for_loop [0..<cols] (\<lambda>j result.
            case element this i j of
              None \<Rightarrow> Inl TypeError
            | Some matrixElement \<Rightarrow>
                Inr (result[i := add (result ! i) (multiply matrixElement (v ! j))])))
          (replicate rows (Complex_new 0 0)))"

text \<open>
  The store \<open>resultData[row][col] = x\<close>. In \<open>tensorProduct\<close> the row index is below
  \<open>r1 * r2\<close> and the column index below \<open>c1 * c2\<close>, the sizes the rows were allocated
  with, so the store never extends an array.
\<close>

definition store2 :: "'a list list \<Rightarrow> nat \<Rightarrow> nat \<Rightarrow> 'a \<Rightarrow> error + 'a list list" where
  "store2 d row col x =
     (if row < length d then Inr (d[row := (d ! row)[col := x]]) else Inl TypeError)"

definition tensorProduct :: "Matrix \<Rightarrow> Matrix \<Rightarrow> error + Matrix" where
  "tensorProduct this other =
     (let (r1, c1) = getDimensions this;
          (r2, c2) = getDimensions other;
          resultRows = r1 * r2;
          resultCols = c1 * c2
      in bind
           (for_loop [0..<r1] (\<lambda>i.
              for_loop [0..<c1] (\<lambda>j.
                for_loop [0..<r2] (\<lambda>k.
                  for_loop [0..<c2] (\<lambda>l resultData.
                    let row = i * r2 + k; col = j * c2 + l in
                    case element this i j of
                      None \<Rightarrow> Inl TypeError
                    | Some thisElement \<Rightarrow>
                        (case element other k l of
                           None \<Rightarrow> Inl TypeError
                         | Some otherElement \<Rightarrow>
                             store2 resultData row col (multiply thisElement otherElement))))))
              (replicate resultRows (replicate resultCols (Complex_new 0 0))))
           (\<lambda>resultData. Inr \<lparr>data = resultData\<rparr>))"

section \<open>Quantum state (class QuantumState)\<close>

record QuantumState =
  amplitudes :: "ComplexNumber list"

text \<open>
  The constructor: \<open>new Array(size)\<close> raises a RangeError for a negative size (the size
  \<open>1 << 31\<close> of a register is one), and the store \<open>amplitudes[0] = 1\<close> extends an empty
  array to length 1.
\<close>

definition QuantumState_new :: "int \<Rightarrow> error + QuantumState" where
  "QuantumState_new sz =
     (if sz < 0 then Inl RangeError
      else
        let zeros = replicate (nat sz) (Complex_new 0 0) in
        Inr \<lparr>amplitudes = (if zeros = [] then [Complex_new 1 0] else zeros[0 := Complex_new 1 0])\<rparr>)"

definition getProbability :: "QuantumState \<Rightarrow> nat \<Rightarrow> error + real" where
  "getProbability this index =
     (if index < length (amplitudes this) then Inr (magnitudeSquared (amplitudes this ! index))
      else Inl TypeError)"

definition getAmplitude :: "QuantumState \<Rightarrow> nat \<Rightarrow> ComplexNumber option" where
  "getAmplitude this index =
     (if index < length (amplitudes this) then Some (amplitudes this ! index) else None)"

definition applyGate :: "QuantumState \<Rightarrow> Matrix \<Rightarrow> error + QuantumState" where
  "applyGate this m = bind (multiplyVector m (amplitudes this)) (\<lambda>v. Inr (this\<lparr>amplitudes := v\<rparr>))"

text \<open>
  The scan of \<open>measure\<close>: \<open>cumulative += probabilities[i]\<close>, and the first index with
  \<open>random <= cumulative\<close> is returned; \<open>None\<close> when the loop ends without one.
\<close>

fun scan :: "real list \<Rightarrow> real \<Rightarrow> real \<Rightarrow> nat \<Rightarrow> nat option" where
  "scan [] random cumulative i = None"
| "scan (p # probabilities) random cumulative i =
     (if random \<le> cumulative + p then Some i
      else scan probabilities random (cumulative + p) (Suc i))"

text \<open>
  \<open>measure\<close> takes the value \<open>Math.random()\<close> returned as its argument \<open>random\<close>, and
  returns the outcome with the state after the call.
\<close>

definition QuantumState_measure :: "QuantumState \<Rightarrow> real \<Rightarrow> nat \<times> QuantumState" where
  "QuantumState_measure this random =
     (case scan (map magnitudeSquared (amplitudes this)) random 0 0 of
        Some i \<Rightarrow>
          (i, this\<lparr>amplitudes :=
                (replicate (length (amplitudes this)) (Complex_new 0 0))[i := Complex_new 1 0]\<rparr>)
      | None \<Rightarrow> (0, this))"

text \<open>
  \<open>Math.log2(this.amplitudes.length)\<close>. Its only use is as the bound of the loop
  \<open>for (let j = 0; j < qubitCount; j++)\<close>, and \<open>j < log2 len\<close> holds exactly when
  \<open>2^j < len\<close>: the model returns the number of such \<open>j\<close>, the number of iterations
  (\<open>n\<close> for a length \<open>2^n\<close>, and 0 for the lengths 0 and 1).
\<close>

definition getQubitCount :: "QuantumState \<Rightarrow> nat" where
  "getQubitCount this =
     length (takeWhile (\<lambda>j. 2 ^ j < length (amplitudes this)) [0..<length (amplitudes this)])"

definition QuantumState_clone :: "QuantumState \<Rightarrow> error + QuantumState" where
  "QuantumState_clone this =
     bind (QuantumState_new (int (length (amplitudes this)))) (\<lambda>newState.
       Inr (newState\<lparr>amplitudes :=
              fold (\<lambda>i a. a[i := clone (amplitudes this ! i)]) [0..<length (amplitudes this)]
                (amplitudes newState)\<rparr>))"

section \<open>Quantum register (class QuantumRegister)\<close>

record QuantumRegister =
  state :: QuantumState
  qubitCount :: nat

definition QuantumRegister_new :: "nat \<Rightarrow> error + QuantumRegister" where
  "QuantumRegister_new n =
     bind (QuantumState_new (js_shl 1 n)) (\<lambda>s. Inr \<lparr>state = s, qubitCount = n\<rparr>)"

definition expandSingleQubitGate :: "QuantumRegister \<Rightarrow> Matrix \<Rightarrow> nat \<Rightarrow> error + Matrix" where
  "expandSingleQubitGate this g qubitIndex =
     for_loop [0..<qubitCount this] (\<lambda>i result.
         if i = qubitIndex then tensorProduct result g
         else tensorProduct result (identity 2))
       (identity 2)"

text \<open>
  The swap of \<open>matrix.data[i][j]\<close> and \<open>matrix.data[flipped][j]\<close>; \<open>flipped\<close> is a signed
  32-bit integer, and \<open>matrix.data[flipped]\<close> is \<open>undefined\<close> outside the matrix.
\<close>

definition swap_entry :: "ComplexNumber list list \<Rightarrow> nat \<Rightarrow> int \<Rightarrow> nat \<Rightarrow> error + ComplexNumber list list" where
  "swap_entry d i flipped j =
     (if 0 \<le> flipped \<and> nat flipped < length d then
        let temp = d ! i ! j;
            d1 = d[i := (d ! i)[j := d ! nat flipped ! j]];
            d2 = d1[nat flipped := (d1 ! nat flipped)[j := temp]]
        in Inr d2
      else Inl TypeError)"

definition createCNOT :: "QuantumRegister \<Rightarrow> nat \<Rightarrow> nat \<Rightarrow> error + Matrix" where
  "createCNOT this control target =
     (let sz = js_shl 1 (qubitCount this);
          m = identity (nat sz)
      in bind
           (for_loop [0..<nat sz] (\<lambda>i d.
              if js_and (js_shr (int i) control) 1 \<noteq> 0 then
                let flipped = js_xor (int i) (js_shl 1 target) in
                if int i \<noteq> flipped then for_loop [0..<nat sz] (\<lambda>j d'. swap_entry d' i flipped j) d
                else Inr d
              else Inr d)
              (data m))
           (\<lambda>d. Inr \<lparr>data = d\<rparr>))"

definition applySingleQubitGate :: "QuantumRegister \<Rightarrow> Matrix \<Rightarrow> nat \<Rightarrow> error + QuantumRegister" where
  "applySingleQubitGate this g qubitIndex =
     bind (expandSingleQubitGate this g qubitIndex) (\<lambda>fullGate.
       bind (applyGate (state this) fullGate) (\<lambda>s. Inr (this\<lparr>state := s\<rparr>)))"

definition applyCNOT :: "QuantumRegister \<Rightarrow> nat \<Rightarrow> nat \<Rightarrow> error + QuantumRegister" where
  "applyCNOT this controlQubit targetQubit =
     bind (createCNOT this controlQubit targetQubit) (\<lambda>cnot.
       bind (applyGate (state this) cnot) (\<lambda>s. Inr (this\<lparr>state := s\<rparr>)))"

definition measureQubit :: "QuantumRegister \<Rightarrow> nat \<Rightarrow> real \<Rightarrow> int \<times> QuantumRegister" where
  "measureQubit this qubitIndex random =
     (let (result, s) = QuantumState_measure (state this) random
      in (js_and (js_shr (int result) qubitIndex) 1, this\<lparr>state := s\<rparr>))"

definition QuantumRegister_getState :: "QuantumRegister \<Rightarrow> error + QuantumState" where
  "QuantumRegister_getState this = QuantumState_clone (state this)"

definition QuantumRegister_reset :: "QuantumRegister \<Rightarrow> error + QuantumRegister" where
  "QuantumRegister_reset this =
     bind (QuantumState_new (js_shl 1 (qubitCount this))) (\<lambda>s. Inr (this\<lparr>state := s\<rparr>))"

section \<open>Gate library (class QuantumGates)\<close>

definition QuantumGates_X :: Matrix where
  "QuantumGates_X = \<lparr>data = [[Complex_new 0 0, Complex_new 1 0],
                             [Complex_new 1 0, Complex_new 0 0]]\<rparr>"

definition QuantumGates_Y :: Matrix where
  "QuantumGates_Y = \<lparr>data = [[Complex_new 0 0, Complex_new 0 (- 1)],
                             [Complex_new 0 1, Complex_new 0 0]]\<rparr>"

definition QuantumGates_Z :: Matrix where
  "QuantumGates_Z = \<lparr>data = [[Complex_new 1 0, Complex_new 0 0],
                             [Complex_new 0 0, Complex_new (- 1) 0]]\<rparr>"

definition QuantumGates_H :: Matrix where
  "QuantumGates_H =
     (let val = 1 / sqrt 2 in
      \<lparr>data = [[Complex_new val 0, Complex_new val 0],
                [Complex_new val 0, Complex_new (- val) 0]]\<rparr>)"

definition QuantumGates_S :: Matrix where
  "QuantumGates_S = \<lparr>data = [[Complex_new 1 0, Complex_new 0 0],
                             [Complex_new 0 0, Complex_new 0 1]]\<rparr>"

definition QuantumGates_T :: Matrix where
  "QuantumGates_T = \<lparr>data = [[Complex_new 1 0, Complex_new 0 0],
                             [Complex_new 0 0, Complex_new (cos (pi / 4)) (sin (pi / 4))]]\<rparr>"

definition QuantumGates_I :: Matrix where
  "QuantumGates_I = identity 2"

section \<open>Quantum circuit (class QuantumCircuit)\<close>

record GateRecord =
  gate :: Matrix
  qubits :: "nat list"

record QuantumCircuit =
  register :: QuantumRegister
  gates :: "GateRecord list"

definition QuantumCircuit_new :: "nat \<Rightarrow> error + QuantumCircuit" where
  "QuantumCircuit_new n = bind (QuantumRegister_new n) (\<lambda>r. Inr \<lparr>register = r, gates = []\<rparr>)"

definition createCNOTMatrix :: Matrix where
  "createCNOTMatrix =
     \<lparr>data = [[Complex_new 1 0, Complex_new 0 0, Complex_new 0 0, Complex_new 0 0],
               [Complex_new 0 0, Complex_new 1 0, Complex_new 0 0, Complex_new 0 0],
               [Complex_new 0 0, Complex_new 0 0, Complex_new 0 0, Complex_new 1 0],
               [Complex_new 0 0, Complex_new 0 0, Complex_new 1 0, Complex_new 0 0]]\<rparr>"

definition addHadamard :: "QuantumCircuit \<Rightarrow> nat \<Rightarrow> error + QuantumCircuit" where
  "addHadamard this qubitIndex =
     bind (applySingleQubitGate (register this) QuantumGates_H qubitIndex) (\<lambda>r.
       Inr (this\<lparr>register := r,
                 gates := gates this @ [\<lparr>gate = QuantumGates_H, qubits = [qubitIndex]\<rparr>]\<rparr>))"

definition addX :: "QuantumCircuit \<Rightarrow> nat \<Rightarrow> error + QuantumCircuit" where
  "addX this qubitIndex =
     bind (applySingleQubitGate (register this) QuantumGates_X qubitIndex) (\<lambda>r.
       Inr (this\<lparr>register := r,
                 gates := gates this @ [\<lparr>gate = QuantumGates_X, qubits = [qubitIndex]\<rparr>]\<rparr>))"

definition addCNOT :: "QuantumCircuit \<Rightarrow> nat \<Rightarrow> nat \<Rightarrow> error + QuantumCircuit" where
  "addCNOT this controlQubit targetQubit =
     bind (applyCNOT (register this) controlQubit targetQubit) (\<lambda>r.
       Inr (this\<lparr>register := r,
                 gates := gates this @
                   [\<lparr>gate = createCNOTMatrix, qubits = [controlQubit, targetQubit]\<rparr>]\<rparr>))"

definition QuantumCircuit_measure :: "QuantumCircuit \<Rightarrow> nat \<Rightarrow> real \<Rightarrow> int \<times> QuantumCircuit" where
  "QuantumCircuit_measure this qubitIndex random =
     (let (b, r) = measureQubit (register this) qubitIndex random in (b, this\<lparr>register := r\<rparr>))"

definition QuantumCircuit_getState :: "QuantumCircuit \<Rightarrow> error + QuantumState" where
  "QuantumCircuit_getState this = QuantumRegister_getState (register this)"

definition QuantumCircuit_reset :: "QuantumCircuit \<Rightarrow> error + QuantumCircuit" where
  "QuantumCircuit_reset this =
     bind (QuantumRegister_reset (register this)) (\<lambda>r. Inr (this\<lparr>register := r, gates := []\<rparr>))"

text \<open>
  The histogram of \<open>run\<close> is a \<open>Map\<close> from strings to counts, kept in insertion order.
  \<open>results.get(k) || 0\<close> is \<open>Map_get\<close>, \<open>results.set(k, v)\<close> is \<open>Map_set\<close>.
\<close>

fun Map_get :: "(string \<times> nat) list \<Rightarrow> string \<Rightarrow> nat" where
  "Map_get [] k = 0"
| "Map_get ((k', v') # m) k = (if k' = k then v' else Map_get m k)"

fun Map_set :: "(string \<times> nat) list \<Rightarrow> string \<Rightarrow> nat \<Rightarrow> (string \<times> nat) list" where
  "Map_set [] k v = [(k, v)]"
| "Map_set ((k', v') # m) k v = (if k' = k then (k, v) # m else (k', v') # Map_set m k v)"

text \<open>
  The string of a measured bit in \<open>measureQubit(j) + result\<close>; the bit is \<open>x & 1\<close>,
  which is 0 or 1.
\<close>

definition bit_string :: "int \<Rightarrow> string" where
  "bit_string b = (if b = 0 then ''0'' else ''1'')"

text \<open>
  The gate replay of \<open>run\<close>: one dispatch for each record of the log, by the number of
  its qubit indices.
\<close>

definition replay :: "GateRecord list \<Rightarrow> QuantumRegister \<Rightarrow> error + QuantumRegister" where
  "replay gateLog r =
     for_loop gateLog (\<lambda>record reg.
         if length (qubits record) = 1 then applySingleQubitGate reg (gate record) (qubits record ! 0)
         else if length (qubits record) = 2 then applyCNOT reg (qubits record ! 0) (qubits record ! 1)
         else Inr reg)
       r"

text \<open>
  The measuring loop of \<open>run\<close>, \<open>for (j = 0; j < bound; j++) result = measureQubit(j) + result\<close>.
  The random source is the sequence \<open>rnd\<close> of the values \<open>Math.random()\<close> returns; \<open>k\<close>
  counts the values drawn so far.
\<close>

definition measure_loop ::
  "nat \<Rightarrow> (nat \<Rightarrow> real) \<Rightarrow> string \<times> QuantumRegister \<times> nat \<Rightarrow> string \<times> QuantumRegister \<times> nat" where
  "measure_loop bound rnd start =
     fold (\<lambda>j (result, reg, k).
             let (b, reg') = measureQubit reg j (rnd k) in (bit_string b @ result, reg', Suc k))
       [0..<bound] start"

definition run ::
  "QuantumCircuit \<Rightarrow> nat \<Rightarrow> (nat \<Rightarrow> real) \<Rightarrow> nat \<Rightarrow>
     error + ((string \<times> nat) list \<times> QuantumCircuit \<times> nat)" where
  "run this trials rnd k0 =
     for_loop [0..<trials] (\<lambda>i (results, c, k).
         bind (QuantumCircuit_reset c) (\<lambda>c1.
         bind (replay (gates c1) (register c1)) (\<lambda>reg.
         bind (QuantumRegister_getState reg) (\<lambda>snapshot.
           let (result, reg', k') = measure_loop (getQubitCount snapshot) rnd ([], reg, k)
           in Inr (Map_set results result (Map_get results result + 1),
                   c1\<lparr>register := reg'\<rparr>, k')))))
       ([], this, k0)"

text \<open>
  The registers a caller can reach from a constructed register \<open>r0\<close> by the public
  operations of the class, each with any arguments and any random value.
\<close>

inductive reachable :: "QuantumRegister \<Rightarrow> QuantumRegister \<Rightarrow> bool" for r0 where
  constructed: "reachable r0 r0"
| single_qubit_gate: "reachable r0 r \<Longrightarrow> applySingleQubitGate r g q = Inr r' \<Longrightarrow> reachable r0 r'"
| cnot: "reachable r0 r \<Longrightarrow> applyCNOT r c t = Inr r' \<Longrightarrow> reachable r0 r'"
| measured: "reachable r0 r \<Longrightarrow> measureQubit r q random = (b, r') \<Longrightarrow> reachable r0 r'"
| reset: "reachable r0 r \<Longrightarrow> QuantumRegister_reset r = Inr r' \<Longrightarrow> reachable r0 r'"

section \<open>The controlled-NOT operator of the specification\<close>

text \<open>
  This definition follows the words of the specification, not the code: the matrix that
  maps the basis vector at each index \<open>i\<close> whose control bit is 1 to the basis vector at
  \<open>i XOR (1 << target)\<close> and leaves the basis vectors whose control bit is 0 fixed. Column
  \<open>col\<close> of the matrix is the basis vector at \<open>cnot_index control target col\<close>.
\<close>

definition cnot_index :: "nat \<Rightarrow> nat \<Rightarrow> nat \<Rightarrow> nat" where
  "cnot_index control target i = (if bit i control then i XOR push_bit target 1 else i)"

definition cnot_permutation :: "nat \<Rightarrow> nat \<Rightarrow> nat \<Rightarrow> Matrix" where
  "cnot_permutation n control target =
     \<lparr>data = map (\<lambda>row. map (\<lambda>col. if row = cnot_index control target col then Complex_new 1 0
                                     else Complex_new 0 0) [0..<2 ^ n]) [0..<2 ^ n]\<rparr>"

section \<open>Notions used in the proofs\<close>

text \<open>The state \<open>|0...0>\<close> of \<open>n\<close> qubits, and the random source that returns \<open>x\<close> at every draw.\<close>

definition zero_state :: "nat \<Rightarrow> QuantumState" where
  "zero_state n = \<lparr>amplitudes = (replicate (2 ^ n) (Complex_new 0 0))[0 := Complex_new 1 0]\<rparr>"

definition constant_draws :: "real \<Rightarrow> nat \<Rightarrow> real" where
  "constant_draws x k = x"

text \<open>A table of \<open>rs\<close> rows and \<open>cs\<close> columns, and the store of \<open>g row col\<close> at a position.\<close>

definition table :: "nat \<Rightarrow> nat \<Rightarrow> 'a list list \<Rightarrow> bool" where
  "table rs cs d \<longleftrightarrow> length d = rs \<and> (\<forall>r<rs. length (d ! r) = cs)"

definition put :: "(nat \<Rightarrow> nat \<Rightarrow> 'a) \<Rightarrow> nat \<times> nat \<Rightarrow> 'a list list \<Rightarrow> 'a list list" where
  "put g p d = d[fst p := (d ! fst p)[snd p := g (fst p) (snd p)]]"

text \<open>
  The row of the identity matrix found at row \<open>r\<close> of the matrix of \<open>createCNOT\<close> after the
  loop has visited the indices below \<open>m\<close>: the rows of a pair are exchanged while exactly
  one index of the pair has been visited.
\<close>

definition half_swapped :: "nat \<Rightarrow> nat \<Rightarrow> nat \<Rightarrow> nat \<Rightarrow> nat" where
  "half_swapped c t m r =
     (if bit r c \<and> (r < m) \<noteq> (r XOR 2 ^ t < m) then r XOR 2 ^ t else r)"

text \<open>
  The entry of the Kronecker product at row \<open>r\<close> and column \<open>c\<close>: the entry written at
  \<open>(i * rowsB + k, j * colsB + l)\<close> is \<open>a[i][j] * b[k][l]\<close>.
\<close>

definition kron :: "Matrix \<Rightarrow> Matrix \<Rightarrow> nat \<Rightarrow> nat \<Rightarrow> ComplexNumber" where
  "kron a b r c =
     multiply (data a ! (r div fst (getDimensions b)) ! (c div snd (getDimensions b)))
              (data b ! (r mod fst (getDimensions b)) ! (c mod snd (getDimensions b)))"

section \<open>Properties of the complex arithmetic\<close>

subsection \<open>Rounding and the operations on doubles\<close>

lemma overflow_threshold_positive: "0 < overflow_threshold"
  by (simp add: overflow_threshold_def)

lemma nearest_double_minus: "nearest_double (- x) = - nearest_double x"
  by (simp add: nearest_double_def Let_def sgn_minus)

lemma nearest_double_zero: "nearest_double 0 = 0"
  by (simp add: nearest_double_def)

lemma round_double_minus: "round_double (- x) = d_neg (round_double x)"
  using overflow_threshold_positive
  by (auto simp: round_double_def nearest_double_minus)

lemma round_double_zero: "round_double 0 = Finite 0"
  using overflow_threshold_positive by (simp add: round_double_def nearest_double_zero)

lemma d_neg_neg: "d_neg (d_neg x) = x"
  by (cases x) simp_all

lemma d_sign_neg: "d_sign (d_neg x) = - d_sign x"
  by (cases x) (simp_all add: sgn_minus)

lemma d_mul_neg: "d_mul x (d_neg y) = d_neg (d_mul x y)"
  by (cases x; cases y) (auto simp: round_double_minus sgn_minus sgn_if split: if_splits)

lemma d_mul_commute: "d_mul x y = d_mul y x"
  by (cases x; cases y) (simp_all add: mult.commute)

lemma d_add_neg_self: "d_add (d_neg p) p = (if is_finite p then Finite 0 else NaN)"
  by (cases p) (simp_all add: is_finite_def round_double_zero)

lemma d_sub_neg: "d_sub x (d_neg y) = d_add x y"
  by (simp add: d_sub_def d_neg_neg)

lemma round_double_square:
  "round_double (a * a) \<noteq> MinusInfinity \<and> round_double (a * a) \<noteq> NaN"
proof -
  have "0 \<le> a * a" by simp
  with overflow_threshold_positive have "\<not> a * a \<le> - overflow_threshold" by linarith
  then show ?thesis by (simp add: round_double_def)
qed

lemma d_mul_square: "x \<noteq> NaN \<Longrightarrow> d_mul x x \<noteq> MinusInfinity \<and> d_mul x x \<noteq> NaN"
  by (cases x) (simp_all add: round_double_square)

lemma d_mul_square_NaN: "d_mul x x = NaN \<longleftrightarrow> x = NaN"
  using d_mul_square [of x] by (cases x) auto

lemma round_double_not_NaN: "round_double x \<noteq> NaN"
  by (simp add: round_double_def)

lemma d_add_NaN:
  "x \<noteq> MinusInfinity \<Longrightarrow> y \<noteq> MinusInfinity \<Longrightarrow> d_add x y = NaN \<longleftrightarrow> x = NaN \<or> y = NaN"
  by (cases x; cases y) (simp_all add: round_double_not_NaN)

lemma d_add_NaN_right: "d_add x NaN = NaN"
  by (cases x) simp_all

lemma is_finite_d_mul:
  "is_finite (d_mul u v) \<longleftrightarrow>
     (\<exists>x y. u = Finite x \<and> v = Finite y \<and> \<bar>x * y\<bar> < overflow_threshold)"
proof (cases u; cases v)
  fix x y assume uv: "u = Finite x" "v = Finite y"
  have "is_finite (round_double (x * y)) \<longleftrightarrow> \<bar>x * y\<bar> < overflow_threshold"
    using overflow_threshold_positive by (auto simp: round_double_def is_finite_def)
  with uv show ?thesis by simp
qed (simp_all add: is_finite_def)

text \<open>
  The powers of two from \<open>2^52\<close> to \<open>2^1023\<close> are doubles: rounding leaves them as they
  are. In particular \<open>2^1000\<close> is a finite double.
\<close>

lemma round_half_even_of_int: "round_half_even (of_int k) = k"
  by (simp add: round_half_even_def)

lemma representable_power:
  assumes "52 \<le> n" "n \<le> 1023"
  shows "round_double (2 ^ n) = Finite (2 ^ n)"
proof -
  have lt: "(2::real) ^ n < overflow_threshold"
  proof -
    have "(2::real) ^ n \<le> 2 ^ 1023" using assms(2) by (intro power_increasing) simp_all
    also have "\<dots> < overflow_threshold" by (simp add: overflow_threshold_def)
    finally show ?thesis .
  qed
  have lg: "\<lfloor>log 2 \<bar>(2::real) ^ n\<bar>\<rfloor> = int n"
    by (simp add: log_nat_power)
  have q: "max (int n - 52) (- 1074) = int (n - 52)" using assms(1) by simp
  have pw: "2 powr real_of_int (int (n - 52)) = (2::real) ^ (n - 52)"
    by (simp add: powr_realpow)
  have "(2::real) ^ n = 2 ^ ((n - 52) + 52)" using assms(1) by simp
  also have "\<dots> = 2 ^ (n - 52) * 2 ^ 52" by (rule power_add)
  finally have split: "(2::real) ^ n = 2 ^ (n - 52) * 2 ^ 52" .
  then have quot: "\<bar>(2::real) ^ n\<bar> / 2 ^ (n - 52) = of_int (2 ^ 52)" by simp
  have "nearest_double (2 ^ n) = 2 ^ n"
    unfolding nearest_double_def Let_def lg q pw quot round_half_even_of_int
    using split by simp
  moreover have "- overflow_threshold < (2::real) ^ n"
    using overflow_threshold_positive by (simp add: less_trans [of _ 0])
  ultimately show ?thesis
    using lt by (simp add: round_double_def)
qed

lemma representable_input: "round_double (2 ^ 1000) = Finite (2 ^ 1000)"
  by (rule representable_power) simp_all

subsection \<open>The product of a number with its conjugate\<close>

text \<open>
  C8, as amended. For every complex number \<open>a\<close> over doubles, the real part of
  \<open>multiply a (conjugate a)\<close> and \<open>magnitudeSquared a\<close> are the same double, so that
  \<open>real == magnitudeSquared a\<close> holds exactly when neither component of \<open>a\<close> is NaN; the
  imaginary part of the product is 0 when the product \<open>a.real * a.imag\<close> is finite and NaN
  otherwise, so that \<open>imag == 0\<close> holds exactly when both components of \<open>a\<close> are finite
  and \<open>|a.real * a.imag| < 2^1024 - 2^970\<close>, that is, when their product does not overflow.
\<close>

theorem multiply_conjugate_double:
  "real_double (multiply_double a (conjugate_double a)) = magnitudeSquared_double a \<and>
   (js_eq (real_double (multiply_double a (conjugate_double a))) (magnitudeSquared_double a) \<longleftrightarrow>
      real_double a \<noteq> NaN \<and> imag_double a \<noteq> NaN) \<and>
   imag_double (multiply_double a (conjugate_double a)) =
     (if is_finite (d_mul (real_double a) (imag_double a)) then Finite 0 else NaN) \<and>
   (js_eq (imag_double (multiply_double a (conjugate_double a))) (Finite 0) \<longleftrightarrow>
      (\<exists>x y. real_double a = Finite x \<and> imag_double a = Finite y \<and>
             \<bar>x * y\<bar> < overflow_threshold))"
proof -
  let ?re = "real_double a" and ?im = "imag_double a"
  have re: "real_double (multiply_double a (conjugate_double a)) = magnitudeSquared_double a"
    by (simp add: multiply_double_def conjugate_double_def magnitudeSquared_double_def
        d_mul_neg d_sub_neg)
  have "magnitudeSquared_double a = NaN \<longleftrightarrow> ?re = NaN \<or> ?im = NaN"
  proof (cases "?re = NaN \<or> ?im = NaN")
    case True
    then show ?thesis by (auto simp: magnitudeSquared_double_def d_add_NaN_right)
  next
    case False
    then have "d_mul ?re ?re \<noteq> MinusInfinity" "d_mul ?im ?im \<noteq> MinusInfinity"
      using d_mul_square by blast+
    then show ?thesis
      by (simp add: magnitudeSquared_double_def d_add_NaN d_mul_square_NaN)
  qed
  then have re_eq: "js_eq (real_double (multiply_double a (conjugate_double a)))
        (magnitudeSquared_double a) \<longleftrightarrow> ?re \<noteq> NaN \<and> ?im \<noteq> NaN"
    by (simp add: re js_eq_def)
  have "imag_double (multiply_double a (conjugate_double a)) =
        d_add (d_neg (d_mul ?re ?im)) (d_mul ?im ?re)"
    by (simp add: multiply_double_def conjugate_double_def d_mul_neg)
  then have im: "imag_double (multiply_double a (conjugate_double a)) =
      (if is_finite (d_mul ?re ?im) then Finite 0 else NaN)"
    by (simp add: d_mul_commute [of ?im ?re] d_add_neg_self)
  then have "js_eq (imag_double (multiply_double a (conjugate_double a))) (Finite 0) \<longleftrightarrow>
      is_finite (d_mul ?re ?im)"
    by (simp add: js_eq_def)
  with is_finite_d_mul [of ?re ?im]
  have im_eq: "js_eq (imag_double (multiply_double a (conjugate_double a))) (Finite 0) \<longleftrightarrow>
      (\<exists>x y. ?re = Finite x \<and> ?im = Finite y \<and> \<bar>x * y\<bar> < overflow_threshold)"
    by blast
  from re re_eq im im_eq show ?thesis by blast
qed

text \<open>
  At \<open>a = 3 + 4i\<close> both equations hold.
\<close>

theorem multiply_conjugate_double_witness:
  "js_eq (real_double (multiply_double \<lparr>real_double = Finite 3, imag_double = Finite 4\<rparr>
            (conjugate_double \<lparr>real_double = Finite 3, imag_double = Finite 4\<rparr>)))
     (magnitudeSquared_double \<lparr>real_double = Finite 3, imag_double = Finite 4\<rparr>) \<and>
   js_eq (imag_double (multiply_double \<lparr>real_double = Finite 3, imag_double = Finite 4\<rparr>
            (conjugate_double \<lparr>real_double = Finite 3, imag_double = Finite 4\<rparr>))) (Finite 0)"
proof -
  let ?a = "\<lparr>real_double = Finite 3, imag_double = Finite 4\<rparr>"
  have "real_double ?a = Finite 3 \<and> imag_double ?a = Finite 4 \<and> \<bar>3 * 4\<bar> < overflow_threshold"
    by (simp add: overflow_threshold_def)
  then have small: "\<exists>x y. real_double ?a = Finite x \<and> imag_double ?a = Finite y \<and>
      \<bar>x * y\<bar> < overflow_threshold"
    by blast
  have numbers: "real_double ?a \<noteq> NaN \<and> imag_double ?a \<noteq> NaN" by simp
  from multiply_conjugate_double [of ?a] small numbers show ?thesis by blast
qed

text \<open>
  C8 as stated fails at the finite \<open>a = 2^1000 + 2^1000 i\<close>: both products
  \<open>a.real * -a.imag\<close> and \<open>a.imag * a.real\<close> overflow, to \<open>-Infinity\<close> and \<open>Infinity\<close>,
  their sum is NaN, and \<open>imag == 0\<close> is false.
\<close>

theorem multiply_conjugate_overflow:
  "imag_double (multiply_double \<lparr>real_double = Finite (2 ^ 1000), imag_double = Finite (2 ^ 1000)\<rparr>
      (conjugate_double \<lparr>real_double = Finite (2 ^ 1000), imag_double = Finite (2 ^ 1000)\<rparr>)) = NaN \<and>
   \<not> js_eq (imag_double (multiply_double
        \<lparr>real_double = Finite (2 ^ 1000), imag_double = Finite (2 ^ 1000)\<rparr>
        (conjugate_double \<lparr>real_double = Finite (2 ^ 1000), imag_double = Finite (2 ^ 1000)\<rparr>)))
      (Finite 0)"
  by (simp add: multiply_double_def conjugate_double_def round_double_def overflow_threshold_def
      js_eq_def)

section \<open>Measurement\<close>

text \<open>
  The scan of \<open>measure\<close> ends without an index exactly when every cumulative sum
  is below the random value.
\<close>

lemma scan_None:
  "scan ps r c k = None \<longleftrightarrow> (\<forall>i<length ps. c + sum_list (take (Suc i) ps) < r)"
proof (induction ps arbitrary: c k)
  case Nil
  then show ?case by simp
next
  case (Cons p ps)
  show ?case
  proof (cases "r \<le> c + p")
    case True
    then have "\<not> (c + sum_list (take (Suc 0) (p # ps)) < r)" by simp
    then have "\<not> (\<forall>i<length (p # ps). c + sum_list (take (Suc i) (p # ps)) < r)"
      by (metis length_Cons zero_less_Suc)
    with True show ?thesis by simp
  next
    case False
    have "(\<forall>i<length (p # ps). c + sum_list (take (Suc i) (p # ps)) < r) \<longleftrightarrow>
          (\<forall>i<length ps. c + p + sum_list (take (Suc i) ps) < r)"
    proof
      assume h: "\<forall>i<length (p # ps). c + sum_list (take (Suc i) (p # ps)) < r"
      show "\<forall>i<length ps. c + p + sum_list (take (Suc i) ps) < r"
      proof (intro allI impI)
        fix i assume "i < length ps"
        then have "Suc i < length (p # ps)" by simp
        with h have "c + sum_list (take (Suc (Suc i)) (p # ps)) < r" by blast
        then show "c + p + sum_list (take (Suc i) ps) < r" by (simp add: add.assoc)
      qed
    next
      assume h: "\<forall>i<length ps. c + p + sum_list (take (Suc i) ps) < r"
      show "\<forall>i<length (p # ps). c + sum_list (take (Suc i) (p # ps)) < r"
      proof (intro allI impI)
        fix i assume i: "i < length (p # ps)"
        show "c + sum_list (take (Suc i) (p # ps)) < r"
        proof (cases i)
          case 0
          with False show ?thesis by simp
        next
          case (Suc j)
          with i have "j < length ps" by simp
          with h have "c + p + sum_list (take (Suc j) ps) < r" by blast
          with Suc show ?thesis by (simp add: add.assoc)
        qed
      qed
    qed
    with False Cons.IH [of "c + p" "Suc k"] show ?thesis by simp
  qed
qed

lemma scan_Some:
  "i < length ps \<Longrightarrow> r \<le> c + sum_list (take (Suc i) ps) \<Longrightarrow>
   (\<forall>j<i. c + sum_list (take (Suc j) ps) < r) \<Longrightarrow> scan ps r c k = Some (k + i)"
proof (induction ps arbitrary: c k i)
  case Nil
  then show ?case by simp
next
  case (Cons p ps)
  show ?case
  proof (cases i)
    case 0
    with Cons.prems show ?thesis by simp
  next
    case (Suc m)
    from Cons.prems(3) Suc have "c + sum_list (take (Suc 0) (p # ps)) < r" by blast
    then have np: "\<not> r \<le> c + p" by simp
    have m: "m < length ps" using Cons.prems(1) Suc by simp
    have le: "r \<le> c + p + sum_list (take (Suc m) ps)"
      using Cons.prems(2) Suc by (simp add: add.assoc)
    have before: "\<forall>j<m. c + p + sum_list (take (Suc j) ps) < r"
    proof (intro allI impI)
      fix j assume "j < m"
      then have "Suc j < i" using Suc by simp
      with Cons.prems(3) have "c + sum_list (take (Suc (Suc j)) (p # ps)) < r" by blast
      then show "c + p + sum_list (take (Suc j) ps) < r" by (simp add: add.assoc)
    qed
    from Cons.IH [OF m le before, of "Suc k"] np Suc show ?thesis by simp
  qed
qed

text \<open>
  C10. When no index of the scan satisfies \<open>random \<le> cumulative\<close> (the fallback path),
  \<open>measure\<close> returns 0 and leaves the state as it is; when some index does, it returns the
  first such index and the state collapses to the basis vector at that index. So the
  collapse happens on the in-loop return path only.
\<close>

theorem measure_fallback:
  "((\<forall>i<length (amplitudes s).
       sum_list (take (Suc i) (map magnitudeSquared (amplitudes s))) < random) \<longrightarrow>
     QuantumState_measure s random = (0, s)) \<and>
   (i < length (amplitudes s) \<and>
    random \<le> sum_list (take (Suc i) (map magnitudeSquared (amplitudes s))) \<and>
    (\<forall>j<i. sum_list (take (Suc j) (map magnitudeSquared (amplitudes s))) < random) \<longrightarrow>
     QuantumState_measure s random =
       (i, s\<lparr>amplitudes := (replicate (length (amplitudes s)) (Complex_new 0 0))[i := Complex_new 1 0]\<rparr>))"
proof (intro conjI impI)
  assume "\<forall>i<length (amplitudes s).
       sum_list (take (Suc i) (map magnitudeSquared (amplitudes s))) < random"
  then have "scan (map magnitudeSquared (amplitudes s)) random 0 0 = None"
    by (simp add: scan_None)
  then show "QuantumState_measure s random = (0, s)"
    by (simp add: QuantumState_measure_def)
next
  assume h: "i < length (amplitudes s) \<and>
    random \<le> sum_list (take (Suc i) (map magnitudeSquared (amplitudes s))) \<and>
    (\<forall>j<i. sum_list (take (Suc j) (map magnitudeSquared (amplitudes s))) < random)"
  have "scan (map magnitudeSquared (amplitudes s)) random 0 0 = Some (0 + i)"
    by (rule scan_Some) (use h in simp_all)
  then show "QuantumState_measure s random =
       (i, s\<lparr>amplitudes := (replicate (length (amplitudes s)) (Complex_new 0 0))[i := Complex_new 1 0]\<rparr>)"
    by (simp add: QuantumState_measure_def)
qed

theorem measure_fallback_witness:
  "QuantumState_measure \<lparr>amplitudes = [Complex_new 0 0, Complex_new 0 0]\<rparr> (1 / 2) =
     (0, \<lparr>amplitudes = [Complex_new 0 0, Complex_new 0 0]\<rparr>) \<and>
   QuantumState_measure \<lparr>amplitudes = [Complex_new 0 0, Complex_new 1 0]\<rparr> (1 / 2) =
     (1, \<lparr>amplitudes = [Complex_new 0 0, Complex_new 1 0]\<rparr>)"
proof -
  have a: "\<forall>i<length (amplitudes \<lparr>amplitudes = [Complex_new 0 0, Complex_new 0 0]\<rparr>).
       sum_list (take (Suc i) (map magnitudeSquared
         (amplitudes \<lparr>amplitudes = [Complex_new 0 0, Complex_new 0 0]\<rparr>))) < (1 / 2 :: real)"
    by (simp add: less_Suc_eq magnitudeSquared_def Complex_new_def)
  have b: "1 < length (amplitudes \<lparr>amplitudes = [Complex_new 0 0, Complex_new 1 0]\<rparr>) \<and>
    (1 / 2 :: real) \<le> sum_list (take (Suc 1) (map magnitudeSquared
         (amplitudes \<lparr>amplitudes = [Complex_new 0 0, Complex_new 1 0]\<rparr>))) \<and>
    (\<forall>j<1. sum_list (take (Suc j) (map magnitudeSquared
         (amplitudes \<lparr>amplitudes = [Complex_new 0 0, Complex_new 1 0]\<rparr>))) < (1 / 2 :: real))"
    by (simp add: magnitudeSquared_def Complex_new_def)
  from a measure_fallback [of "\<lparr>amplitudes = [Complex_new 0 0, Complex_new 0 0]\<rparr>" "1 / 2"]
  have 1: "QuantumState_measure \<lparr>amplitudes = [Complex_new 0 0, Complex_new 0 0]\<rparr> (1 / 2) =
     (0, \<lparr>amplitudes = [Complex_new 0 0, Complex_new 0 0]\<rparr>)" by blast
  from b measure_fallback [of "\<lparr>amplitudes = [Complex_new 0 0, Complex_new 1 0]\<rparr>" "1 / 2" 1]
  have 2: "QuantumState_measure \<lparr>amplitudes = [Complex_new 0 0, Complex_new 1 0]\<rparr> (1 / 2) =
     (1, \<lparr>amplitudes = [Complex_new 0 0, Complex_new 1 0]\<rparr>)" by simp
  from 1 2 show ?thesis by simp
qed

section \<open>Fresh states and reset\<close>

lemma bind_Inr: "bind m f = Inr y \<longleftrightarrow> (\<exists>x. m = Inr x \<and> f x = Inr y)"
  by (cases m) (simp_all add: bind_def)

lemma clone_id: "clone c = c"
  by (simp add: clone_def Complex_new_def)

lemma copy_loop:
  "n \<le> length xs \<Longrightarrow> length ys = length xs \<Longrightarrow>
   fold (\<lambda>i a. a[i := f (xs ! i)]) [0..<n] ys = map f (take n xs) @ drop n ys"
proof (induction n)
  case 0
  then show ?case by simp
next
  case (Suc n)
  then have n: "n < length xs" by simp
  have "fold (\<lambda>i a. a[i := f (xs ! i)]) [0..<Suc n] ys =
        (map f (take n xs) @ drop n ys)[n := f (xs ! n)]"
    using Suc by simp
  also have "\<dots> = map f (take n xs) @ (drop n ys)[0 := f (xs ! n)]"
    using n by (simp add: list_update_append)
  also have "drop n ys = ys ! n # drop (Suc n) ys"
    using n Suc.prems(2) by (simp add: Cons_nth_drop_Suc)
  finally show ?case using n by (simp add: take_Suc_conv_app_nth)
qed

lemma QuantumState_new_amplitudes:
  "QuantumState_new sz = Inr s \<Longrightarrow> 0 < sz \<Longrightarrow>
   amplitudes s = (replicate (nat sz) (Complex_new 0 0))[0 := Complex_new 1 0]"
  by (auto simp: QuantumState_new_def Let_def split: if_splits)

lemma QuantumState_new_nonempty:
  "QuantumState_new sz = Inr s \<Longrightarrow> amplitudes s \<noteq> [] \<and> amplitudes s ! 0 = Complex_new 1 0"
  by (auto simp: QuantumState_new_def Let_def split: if_splits)

lemma QuantumState_clone_id:
  assumes "amplitudes s \<noteq> []"
  shows "QuantumState_clone s = Inr s"
proof -
  let ?n = "length (amplitudes s)"
  let ?fresh = "(replicate ?n (Complex_new 0 0))[0 := Complex_new 1 0]"
  have new: "QuantumState_new (int ?n) = Inr \<lparr>amplitudes = ?fresh\<rparr>"
    using assms by (simp add: QuantumState_new_def Let_def)
  have "fold (\<lambda>i a. a[i := clone (amplitudes s ! i)]) [0..<?n] ?fresh =
        map clone (take ?n (amplitudes s)) @ drop ?n ?fresh"
    by (rule copy_loop) simp_all
  moreover have "map clone (amplitudes s) = amplitudes s"
    by (rule map_idI) (rule clone_id)
  ultimately have "fold (\<lambda>i a. a[i := clone (amplitudes s ! i)]) [0..<?n] ?fresh = amplitudes s"
    by simp
  with new show ?thesis
    by (simp add: QuantumState_clone_def bind_def)
qed

lemma reachable_qubitCount: "reachable r0 r \<Longrightarrow> qubitCount r = qubitCount r0"
proof (induction rule: reachable.induct)
  case constructed
  show ?case by simp
next
  case (single_qubit_gate r g q r')
  then show ?case by (auto simp: applySingleQubitGate_def bind_Inr)
next
  case (cnot r c t r')
  then show ?case by (auto simp: applyCNOT_def bind_Inr)
next
  case (measured r q random b r')
  then show ?case by (auto simp: measureQubit_def split: prod.splits)
next
  case (reset r r')
  then show ?case by (auto simp: QuantumRegister_reset_def bind_Inr)
qed

lemma fresh_probabilities:
  assumes "QuantumState_new (2 ^ n) = Inr s"
  shows "getProbability s 0 = Inr 1 \<and> (\<forall>i. 1 \<le> i \<and> i < 2 ^ n \<longrightarrow> getProbability s i = Inr 0)"
proof -
  have a: "amplitudes s = (replicate (2 ^ n) (Complex_new 0 0))[0 := Complex_new 1 0]"
    using QuantumState_new_amplitudes [OF assms] by (simp add: nat_power_eq)
  show ?thesis
    by (simp add: a getProbability_def magnitudeSquared_def Complex_new_def nth_list_update)
qed

lemma reset_probability:
  assumes "QuantumRegister_new m = Inr r0" "reachable r0 r"
  shows "\<exists>r' s'. QuantumRegister_reset r = Inr r' \<and> QuantumRegister_getState r' = Inr s' \<and>
           getProbability s' 0 = Inr 1"
proof -
  from assms(1) obtain s0 where s0: "QuantumState_new (js_shl 1 m) = Inr s0"
    and r0: "r0 = \<lparr>state = s0, qubitCount = m\<rparr>"
    by (auto simp: QuantumRegister_new_def bind_Inr)
  have "qubitCount r = m" using reachable_qubitCount [OF assms(2)] r0 by simp
  then have reset: "QuantumRegister_reset r = Inr (r\<lparr>state := s0\<rparr>)"
    using s0 by (simp add: QuantumRegister_reset_def bind_def)
  have "QuantumState_clone s0 = Inr s0"
    using QuantumState_new_nonempty [OF s0]
    by (intro QuantumState_clone_id) simp_all
  then have get: "QuantumRegister_getState (r\<lparr>state := s0\<rparr>) = Inr s0"
    by (simp add: QuantumRegister_getState_def)
  have "getProbability s0 0 = Inr 1"
    using QuantumState_new_nonempty [OF s0]
    by (simp add: getProbability_def magnitudeSquared_def Complex_new_def)
  with reset get show ?thesis by blast
qed

text \<open>
  C7. A freshly constructed state of size \<open>2^n\<close> has probability 1 at index 0 and
  probability 0 at every other index, also for \<open>n = 0\<close>. And for every register that was constructed, after
  any sequence of gate applications, measurements and resets, \<open>reset()\<close> followed by
  \<open>getState().getProbability(0)\<close> returns exactly 1.
\<close>

theorem fresh_state_and_reset:
  "(\<exists>s. QuantumState_new (2 ^ n) = Inr s) \<and>
   (QuantumState_new (2 ^ n) = Inr s \<longrightarrow>
      getProbability s 0 = Inr 1 \<and>
      (\<forall>i. 1 \<le> i \<and> i < 2 ^ n \<longrightarrow> getProbability s i = Inr 0)) \<and>
   (QuantumRegister_new m = Inr r0 \<and> reachable r0 r \<longrightarrow>
      (\<exists>r' s'. QuantumRegister_reset r = Inr r' \<and> QuantumRegister_getState r' = Inr s' \<and>
         getProbability s' 0 = Inr 1))"
proof (intro conjI impI)
  show "\<exists>s. QuantumState_new (2 ^ n) = Inr s"
    by (simp add: QuantumState_new_def Let_def)
next
  assume "QuantumState_new (2 ^ n) = Inr s"
  then show "getProbability s 0 = Inr 1" using fresh_probabilities by blast
next
  assume "QuantumState_new (2 ^ n) = Inr s"
  then show "\<forall>i. 1 \<le> i \<and> i < 2 ^ n \<longrightarrow> getProbability s i = Inr 0"
    using fresh_probabilities by blast
next
  assume "QuantumRegister_new m = Inr r0 \<and> reachable r0 r"
  then show "\<exists>r' s'. QuantumRegister_reset r = Inr r' \<and> QuantumRegister_getState r' = Inr s' \<and>
         getProbability s' 0 = Inr 1"
    using reset_probability by blast
qed


theorem fresh_state_and_reset_witness:
  "(\<exists>s. QuantumState_new (2 ^ 1) = Inr s) \<and>
   getProbability \<lparr>amplitudes = [Complex_new 1 0, Complex_new 0 0]\<rparr> 0 = Inr 1 \<and>
   getProbability \<lparr>amplitudes = [Complex_new 1 0, Complex_new 0 0]\<rparr> 1 = Inr 0 \<and>
   (\<exists>r' s'. QuantumRegister_reset
        \<lparr>state = \<lparr>amplitudes = [Complex_new 1 0, Complex_new 0 0]\<rparr>, qubitCount = 1\<rparr> = Inr r' \<and>
      QuantumRegister_getState r' = Inr s' \<and> getProbability s' 0 = Inr 1)"
proof -
  let ?s = "\<lparr>amplitudes = [Complex_new 1 0, Complex_new 0 0]\<rparr>"
  let ?r = "\<lparr>state = ?s, qubitCount = 1\<rparr>"
  have new: "QuantumState_new (2 ^ 1) = Inr ?s" by code_simp
  have reg: "QuantumRegister_new 1 = Inr ?r" by code_simp
  have "measureQubit ?r 0 (1 / 2) = (0, ?r)" by code_simp
  then have reach: "reachable ?r ?r"
    by (rule reachable.measured [OF reachable.constructed])
  have one: "(1::nat) \<le> 1 \<and> (1::nat) < 2 ^ 1" by simp
  from fresh_state_and_reset [of 1 ?s 1 ?r ?r] new reg reach one
  show ?thesis by simp
qed

section \<open>Loops\<close>

lemma for_loop_append:
  "for_loop (xs @ ys) body s = bind (for_loop xs body s) (for_loop ys body)"
  by (induction xs arbitrary: s) (simp_all add: bind_def split: sum.splits)

lemma for_loop_error:
  "for_loop xs body s = Inl e \<Longrightarrow> \<exists>i\<in>set xs. \<exists>s'. body i s' = Inl e"
proof (induction xs arbitrary: s)
  case Nil
  then show ?case by simp
next
  case (Cons x xs)
  show ?case
  proof (cases "body x s")
    case (Inl e')
    with Cons.prems have "body x s = Inl e" by simp
    then show ?thesis by auto
  next
    case (Inr s')
    with Cons.prems have "for_loop xs body s' = Inl e" by simp
    from Cons.IH [OF this] show ?thesis by auto
  qed
qed

lemma for_loop_fold:
  assumes "P s" and "\<And>i s. i \<in> set xs \<Longrightarrow> P s \<Longrightarrow> body i s = Inr (f i s) \<and> P (f i s)"
  shows "for_loop xs body s = Inr (fold f xs s) \<and> P (fold f xs s)"
  using assms
proof (induction xs arbitrary: s)
  case Nil
  then show ?case by simp
next
  case (Cons x xs)
  have step: "body x s = Inr (f x s)" "P (f x s)"
    using Cons.prems(2) [of x s] Cons.prems(1) by simp_all
  have "for_loop xs body (f x s) = Inr (fold f xs (f x s)) \<and> P (fold f xs (f x s))"
    by (rule Cons.IH [OF step(2)]) (use Cons.prems(2) in simp)
  with step show ?case by simp
qed

section \<open>Matrix-vector product\<close>


lemma getDimensions_rows: "fst (getDimensions m) = length (data m)"
  by (simp add: getDimensions_def Let_def)

lemma rectangular_row:
  "rectangular m \<Longrightarrow> i < length (data m) \<Longrightarrow> length (data m ! i) = snd (getDimensions m)"
  by (simp add: rectangular_def list_all_length)

lemma rectangular_element:
  "rectangular m \<Longrightarrow> i < length (data m) \<Longrightarrow> j < snd (getDimensions m) \<Longrightarrow>
   element m i j = Some (data m ! i ! j)"
  by (simp add: element_def rectangular_row)




lemma multiplyVector_mismatch:
  "multiplyVector m v = Inl DimensionMismatch \<longleftrightarrow> length v \<noteq> snd (getDimensions m)"
proof
  assume raised: "multiplyVector m v = Inl DimensionMismatch"
  show "length v \<noteq> snd (getDimensions m)"
  proof
    assume eq: "length v = snd (getDimensions m)"
    let ?inner = "\<lambda>i. for_loop [0..<snd (getDimensions m)] (\<lambda>j result.
              case element m i j of
                None \<Rightarrow> Inl TypeError
              | Some matrixElement \<Rightarrow>
                  Inr (result[i := add (result ! i) (multiply matrixElement (v ! j))]))"
    from raised eq have "for_loop [0..<fst (getDimensions m)] ?inner
        (replicate (fst (getDimensions m)) (Complex_new 0 0)) = Inl DimensionMismatch"
      by (simp add: multiplyVector_def case_prod_beta)
    then obtain i s where "?inner i s = Inl DimensionMismatch"
      using for_loop_error by fastforce
    then obtain j s' where "(case element m i j of
                None \<Rightarrow> Inl TypeError
              | Some matrixElement \<Rightarrow>
                  Inr (s'[i := add (s' ! i) (multiply matrixElement (v ! j))])) = Inl DimensionMismatch"
      using for_loop_error by fastforce
    then show False by (simp split: option.splits)
  qed
next
  assume "length v \<noteq> snd (getDimensions m)"
  then show "multiplyVector m v = Inl DimensionMismatch"
    by (simp add: multiplyVector_def case_prod_beta)
qed




section \<open>Tensor product\<close>

lemma for_loop_map: "for_loop (map g xs) body s = for_loop xs (\<lambda>x. body (g x)) s"
  by (induction xs arbitrary: s) (simp_all split: sum.splits)

lemma for_loop_nested:
  "for_loop xs (\<lambda>i. for_loop ys (body i)) s =
   for_loop (List.product xs ys) (\<lambda>(i, j). body i j) s"
proof (induction xs arbitrary: s)
  case Nil
  show ?case by simp
next
  case (Cons x xs)
  show ?case
    by (simp add: for_loop_append for_loop_map Cons.IH bind_def split: sum.splits)
qed

lemma nth_update_any: "xs[i := x] ! j = (if i = j \<and> i < length xs then x else xs ! j)"
  by (cases "i < length xs") (simp_all add: nth_list_update list_update_beyond)

lemma table_put: "table rs cs d \<Longrightarrow> table rs cs (put g p d)"
  by (auto simp: table_def put_def nth_update_any)

lemma put_nth:
  "table rs cs d \<Longrightarrow> r < rs \<Longrightarrow> c < cs \<Longrightarrow>
   put g p d ! r ! c = (if p = (r, c) then g r c else d ! r ! c)"
  by (cases p) (auto simp: table_def put_def nth_update_any)

lemma fold_put:
  "table rs cs d \<Longrightarrow>
   table rs cs (fold (put g) ps d) \<and>
   (\<forall>r<rs. \<forall>c<cs. fold (put g) ps d ! r ! c = (if (r, c) \<in> set ps then g r c else d ! r ! c))"
proof (induction ps arbitrary: d)
  case Nil
  then show ?case by simp
next
  case (Cons p ps)
  have t: "table rs cs (put g p d)" using Cons.prems by (rule table_put)
  from Cons.IH [OF t] put_nth [OF Cons.prems] show ?case by auto
qed

lemma table_eq:
  assumes "table rs cs d" "table rs cs d'" "\<And>r c. r < rs \<Longrightarrow> c < cs \<Longrightarrow> d ! r ! c = d' ! r ! c"
  shows "d = d'"
proof (rule nth_equalityI)
  show "length d = length d'" using assms(1,2) by (simp add: table_def)
next
  fix r assume "r < length d"
  then have r: "r < rs" using assms(1) by (simp add: table_def)
  show "d ! r = d' ! r"
  proof (rule nth_equalityI)
    show "length (d ! r) = length (d' ! r)" using assms(1,2) r by (simp add: table_def)
  next
    fix c assume "c < length (d ! r)"
    then have "c < cs" using assms(1) r by (simp add: table_def)
    with r show "d ! r ! c = d' ! r ! c" by (rule assms(3))
  qed
qed


lemma for_loop_nested_fun:
  "for_loop xs (\<lambda>i. for_loop ys (body i)) = for_loop (List.product xs ys) (\<lambda>(i, j). body i j)"
  by (rule ext) (rule for_loop_nested)

lemma for_loop_nested4:
  "for_loop xs (\<lambda>i. for_loop ys (\<lambda>j. for_loop zs (\<lambda>k. for_loop ws (\<lambda>l. cell i j k l)))) s =
   for_loop (List.product xs (List.product ys (List.product zs ws)))
     (\<lambda>(i, j, k, l). cell i j k l) s"
proof -
  have inner: "(\<lambda>i j. for_loop zs (\<lambda>k. for_loop ws (\<lambda>l. cell i j k l))) =
               (\<lambda>i j. for_loop (List.product zs ws) (\<lambda>(k, l). cell i j k l))"
    by (simp add: for_loop_nested_fun)
  have middle: "(\<lambda>i. for_loop ys (\<lambda>j. for_loop (List.product zs ws) (\<lambda>(k, l). cell i j k l))) =
                (\<lambda>i. for_loop (List.product ys (List.product zs ws)) (\<lambda>(j, k, l). cell i j k l))"
    by (simp add: for_loop_nested_fun)
  have "for_loop xs (\<lambda>i. for_loop ys (\<lambda>j. for_loop zs (\<lambda>k. for_loop ws (\<lambda>l. cell i j k l)))) s =
        for_loop xs (\<lambda>i. for_loop ys (\<lambda>j. for_loop (List.product zs ws) (\<lambda>(k, l). cell i j k l))) s"
    using inner by metis
  also have "\<dots> = for_loop xs (\<lambda>i. for_loop (List.product ys (List.product zs ws))
                        (\<lambda>(j, k, l). cell i j k l)) s"
    using middle by metis
  also have "\<dots> = for_loop (List.product xs (List.product ys (List.product zs ws)))
                      (\<lambda>(i, j, k, l). cell i j k l) s"
    by (simp add: for_loop_nested)
  finally show ?thesis .
qed


lemma block_index: "i < m \<Longrightarrow> k < n \<Longrightarrow> i * n + k < m * (n::nat)"
proof -
  assume i: "i < m" and k: "k < n"
  have "i * n + k < i * n + n" using k by simp
  also have "\<dots> = Suc i * n" by simp
  also have "\<dots> \<le> m * n" using i by (intro mult_le_mono1) simp
  finally show ?thesis .
qed

lemma tensor_cell:
  assumes "rectangular a" "rectangular b"
    and "i < fst (getDimensions a)" "j < snd (getDimensions a)"
    and "k < fst (getDimensions b)" "l < snd (getDimensions b)"
    and "table (fst (getDimensions a) * fst (getDimensions b))
               (snd (getDimensions a) * snd (getDimensions b)) d"
  shows "(case element a i j of
            None \<Rightarrow> Inl TypeError
          | Some thisElement \<Rightarrow>
              (case element b k l of
                 None \<Rightarrow> Inl TypeError
               | Some otherElement \<Rightarrow>
                   store2 d (i * fst (getDimensions b) + k) (j * snd (getDimensions b) + l)
                     (multiply thisElement otherElement))) =
         Inr (put (kron a b) (i * fst (getDimensions b) + k, j * snd (getDimensions b) + l) d)"
proof -
  have ea: "element a i j = Some (data a ! i ! j)"
    using assms(1,3,4) by (intro rectangular_element) (simp_all add: getDimensions_rows)
  have eb: "element b k l = Some (data b ! k ! l)"
    using assms(2,5,6) by (intro rectangular_element) (simp_all add: getDimensions_rows)
  have row: "i * fst (getDimensions b) + k < length d"
    using block_index [OF assms(3,5)] assms(7) by (simp add: table_def)
  have val: "kron a b (i * fst (getDimensions b) + k) (j * snd (getDimensions b) + l) =
             multiply (data a ! i ! j) (data b ! k ! l)"
    using assms(5,6) by (simp add: kron_def)
  show ?thesis
    using row by (simp add: ea eb store2_def put_def val)
qed

lemma tensorProduct_rectangular:
  assumes "rectangular a" "rectangular b"
  shows "tensorProduct a b =
     Inr \<lparr>data = map (\<lambda>r. map (\<lambda>c. kron a b r c)
                            [0..<snd (getDimensions a) * snd (getDimensions b)])
                  [0..<fst (getDimensions a) * fst (getDimensions b)]\<rparr>"
proof -
  let ?r1 = "fst (getDimensions a)" and ?c1 = "snd (getDimensions a)"
  let ?r2 = "fst (getDimensions b)" and ?c2 = "snd (getDimensions b)"
  let ?cell = "\<lambda>i j k l resultData.
      case element a i j of
        None \<Rightarrow> Inl TypeError
      | Some thisElement \<Rightarrow>
          (case element b k l of
             None \<Rightarrow> Inl TypeError
           | Some otherElement \<Rightarrow>
               store2 resultData (i * ?r2 + k) (j * ?c2 + l) (multiply thisElement otherElement))"
  let ?d0 = "replicate (?r1 * ?r2) (replicate (?c1 * ?c2) (Complex_new 0 0))"
  let ?tuples = "List.product [0..<?r1] (List.product [0..<?c1] (List.product [0..<?r2] [0..<?c2]))"
  let ?pos = "\<lambda>(i, j, k, l). (i * ?r2 + k, j * ?c2 + l)"
  let ?f = "\<lambda>t. put (kron a b) (?pos t)"
  let ?target = "map (\<lambda>r. map (\<lambda>c. kron a b r c) [0..<?c1 * ?c2]) [0..<?r1 * ?r2]"
  have unfold: "tensorProduct a b =
      bind (for_loop [0..<?r1] (\<lambda>i. for_loop [0..<?c1] (\<lambda>j. for_loop [0..<?r2] (\<lambda>k.
              for_loop [0..<?c2] (\<lambda>l. ?cell i j k l)))) ?d0)
           (\<lambda>resultData. Inr \<lparr>data = resultData\<rparr>)"
    by (simp add: tensorProduct_def case_prod_beta Let_def)
  have flat: "for_loop [0..<?r1] (\<lambda>i. for_loop [0..<?c1] (\<lambda>j. for_loop [0..<?r2] (\<lambda>k.
              for_loop [0..<?c2] (\<lambda>l. ?cell i j k l)))) ?d0 =
        for_loop ?tuples (\<lambda>(i, j, k, l). ?cell i j k l) ?d0"
    by (rule for_loop_nested4)
  have t0: "table (?r1 * ?r2) (?c1 * ?c2) ?d0"
    by (simp add: table_def)
  have loop: "for_loop ?tuples (\<lambda>(i, j, k, l). ?cell i j k l) ?d0 = Inr (fold ?f ?tuples ?d0) \<and>
        table (?r1 * ?r2) (?c1 * ?c2) (fold ?f ?tuples ?d0)"
  proof (rule for_loop_fold [where P = "table (?r1 * ?r2) (?c1 * ?c2)"])
    show "table (?r1 * ?r2) (?c1 * ?c2) ?d0" by (rule t0)
  next
    fix t :: "nat \<times> nat \<times> nat \<times> nat" and d :: "ComplexNumber list list"
    assume t: "t \<in> set ?tuples" and d: "table (?r1 * ?r2) (?c1 * ?c2) d"
    obtain i j k l where tup: "t = (i, j, k, l)" by (cases t) auto
    from t tup have bounds: "i < ?r1" "j < ?c1" "k < ?r2" "l < ?c2" by simp_all
    have "?cell i j k l d = Inr (put (kron a b) (i * ?r2 + k, j * ?c2 + l) d)"
      using assms bounds d by (rule tensor_cell)
    moreover have "table (?r1 * ?r2) (?c1 * ?c2) (put (kron a b) (i * ?r2 + k, j * ?c2 + l) d)"
      using d by (rule table_put)
    ultimately show "(case t of (i, j, k, l) \<Rightarrow> ?cell i j k l) d = Inr (?f t d) \<and>
          table (?r1 * ?r2) (?c1 * ?c2) (?f t d)"
      by (simp add: tup)
  qed
  have as_puts: "fold ?f ?tuples ?d0 = fold (put (kron a b)) (map ?pos ?tuples) ?d0"
    by (simp add: fold_map comp_def)
  have entries: "\<forall>r<?r1 * ?r2. \<forall>c<?c1 * ?c2.
      fold (put (kron a b)) (map ?pos ?tuples) ?d0 ! r ! c =
        (if (r, c) \<in> set (map ?pos ?tuples) then kron a b r c else ?d0 ! r ! c)"
    using fold_put [OF t0] by blast
  have covered: "(r, c) \<in> set (map ?pos ?tuples)" if r: "r < ?r1 * ?r2" and c: "c < ?c1 * ?c2" for r c
  proof -
    have r2: "0 < ?r2" using r by (cases "?r2") simp_all
    have c2: "0 < ?c2" using c by (cases "?c2") simp_all
    have "r div ?r2 < ?r1" using r r2 by (simp add: less_mult_imp_div_less)
    moreover have "c div ?c2 < ?c1" using c c2 by (simp add: less_mult_imp_div_less)
    moreover have "r mod ?r2 < ?r2" using r2 by simp
    moreover have "c mod ?c2 < ?c2" using c2 by simp
    ultimately have "(r div ?r2, c div ?c2, r mod ?r2, c mod ?c2) \<in> set ?tuples" by simp
    moreover have "?pos (r div ?r2, c div ?c2, r mod ?r2, c mod ?c2) = (r, c)" by simp
    ultimately show ?thesis by (metis (no_types, lifting) image_eqI set_map)
  qed
  have "fold ?f ?tuples ?d0 = ?target"
  proof (rule table_eq)
    show "table (?r1 * ?r2) (?c1 * ?c2) (fold ?f ?tuples ?d0)" using loop by simp
    show "table (?r1 * ?r2) (?c1 * ?c2) ?target" by (simp add: table_def)
  next
    fix r c assume rc: "r < ?r1 * ?r2" "c < ?c1 * ?c2"
    have "fold ?f ?tuples ?d0 ! r ! c = kron a b r c"
      using entries covered [OF rc] rc by (simp only: as_puts) simp
    then show "fold ?f ?tuples ?d0 ! r ! c = ?target ! r ! c"
      using rc by simp
  qed
  with unfold flat loop show ?thesis by (simp add: bind_def)
qed


lemma getDimensions_identity: "getDimensions (identity n) = (n, n)"
  by (cases n) (simp_all add: getDimensions_def identity_def Let_def nth_append upt_conv_Cons del: upt_Suc)

lemma rectangular_identity: "rectangular (identity n)"
  by (simp add: rectangular_def getDimensions_identity) (simp add: identity_def list_all_iff)

lemma identity_entry:
  "i < n \<Longrightarrow> j < n \<Longrightarrow>
   data (identity n) ! i ! j = (if i = j then Complex_new 1 0 else Complex_new 0 0)"
  by (simp add: identity_def)

lemma multiply_units:
  "multiply (Complex_new 1 0) (Complex_new 1 0) = Complex_new 1 0"
  "multiply (Complex_new 1 0) (Complex_new 0 0) = Complex_new 0 0"
  "multiply (Complex_new 0 0) (Complex_new 1 0) = Complex_new 0 0"
  "multiply (Complex_new 0 0) (Complex_new 0 0) = Complex_new 0 0"
  by (simp_all add: multiply_def Complex_new_def)

lemma kron_identity:
  assumes "r < a * b" "c < a * b"
  shows "kron (identity a) (identity b) r c = (if r = c then Complex_new 1 0 else Complex_new 0 0)"
proof -
  have b: "0 < b" using assms(1) by (cases b) simp_all
  have rd: "r div b < a" and cd: "c div b < a"
    using assms b by (simp_all add: less_mult_imp_div_less)
  have rm: "r mod b < b" and cm: "c mod b < b" using b by simp_all
  have eq: "r = c \<longleftrightarrow> r div b = c div b \<and> r mod b = c mod b"
    by (metis div_mult_mod_eq)
  show ?thesis
    using rd cd rm cm
    by (simp add: kron_def getDimensions_identity identity_entry multiply_units eq)
qed

text \<open>
  C9. The tensor product of two identity matrices is the identity matrix of the product
  size, entry by entry: \<open>tensorProduct(identity(a), identity(b))\<close> returns \<open>identity(a*b)\<close>,
  for all \<open>a\<close> and \<open>b\<close> (in particular all positive ones).
\<close>

theorem tensorProduct_identity:
  "tensorProduct (identity a) (identity b) = Inr (identity (a * b))"
proof -
  have "tensorProduct (identity a) (identity b) =
     Inr \<lparr>data = map (\<lambda>r. map (\<lambda>c. kron (identity a) (identity b) r c) [0..<a * b]) [0..<a * b]\<rparr>"
    using tensorProduct_rectangular [OF rectangular_identity rectangular_identity, of a b]
    by (simp add: getDimensions_identity)
  also have "map (\<lambda>r. map (\<lambda>c. kron (identity a) (identity b) r c) [0..<a * b]) [0..<a * b] =
             map (\<lambda>i. map (\<lambda>j. if i = j then Complex_new 1 0 else Complex_new 0 0) [0..<a * b])
               [0..<a * b]"
    by (simp add: kron_identity)
  finally show ?thesis by (simp add: identity_def)
qed

section \<open>The 32-bit operators on small values\<close>

lemma js_shl_1:
  assumes "n < 31"
  shows "js_shl 1 n = 2 ^ n"
proof -
  have small: "(2::int) ^ n < 2 ^ 31"
    using assms by (intro power_strict_increasing) simp_all
  have "push_bit n (1::32 word) = word_of_int (2 ^ n)"
    by (simp add: push_bit_of_1)
  then have "sint (push_bit n (1::32 word)) = signed_take_bit 31 ((2::int) ^ n)"
    by (simp only: sint_sbintrunc') simp
  also have "\<dots> = 2 ^ n"
  proof (rule signed_take_bit_int_eq_self)
    have "- ((2::int) ^ 31) \<le> 0" by simp
    also have "(0::int) \<le> 2 ^ n" by simp
    finally show "- ((2::int) ^ 31) \<le> 2 ^ n" .
    show "(2::int) ^ n < 2 ^ 31" by (rule small)
  qed
  finally show ?thesis using assms by (simp add: js_shl_def)
qed

lemma js_and_1: "js_and x 1 = 0 \<or> js_and x 1 = 1"
proof (cases "even (word_of_int x :: 32 word)")
  case True
  then have "(word_of_int x :: 32 word) AND 1 = 0"
    by (simp add: and_one_eq even_iff_mod_2_eq_zero)
  then show ?thesis by (simp add: js_and_def)
next
  case False
  then have "(word_of_int x :: 32 word) AND 1 = 1"
    by (simp add: and_one_eq odd_iff_mod_2_eq_one)
  then show ?thesis by (simp add: js_and_def)
qed

section \<open>Single-qubit gates\<close>

lemma tensorProduct_dimensions:
  assumes "rectangular a" "rectangular b" "0 < fst (getDimensions a) * fst (getDimensions b)"
  shows "\<exists>m. tensorProduct a b = Inr m \<and> rectangular m \<and>
           getDimensions m = (fst (getDimensions a) * fst (getDimensions b),
                              snd (getDimensions a) * snd (getDimensions b))"
proof -
  let ?m = "\<lparr>data = map (\<lambda>r. map (\<lambda>c. kron a b r c)
                            [0..<snd (getDimensions a) * snd (getDimensions b)])
                  [0..<fst (getDimensions a) * fst (getDimensions b)]\<rparr>"
  have dims: "getDimensions ?m = (fst (getDimensions a) * fst (getDimensions b),
                              snd (getDimensions a) * snd (getDimensions b))"
    using assms(3) by (simp add: getDimensions_def Let_def)
  have "rectangular ?m"
    unfolding rectangular_def dims by (simp add: list_all_iff)
  with dims tensorProduct_rectangular [OF assms(1,2)] show ?thesis by blast
qed

lemma expandSingleQubitGate_dimensions:
  assumes "rectangular g" "getDimensions g = (2, 2)"
  shows "\<exists>m. expandSingleQubitGate r g q = Inr m \<and> rectangular m \<and>
           getDimensions m = (2 * 2 ^ qubitCount r, 2 * 2 ^ qubitCount r)"
proof -
  let ?body = "\<lambda>i result. if i = q then tensorProduct result g
         else tensorProduct result (identity 2)"
  have "\<exists>m. for_loop [0..<n] ?body (identity 2) = Inr m \<and> rectangular m \<and>
           getDimensions m = (2 * 2 ^ n, 2 * 2 ^ n)" for n
  proof (induction n)
    case 0
    show ?case by (simp add: rectangular_identity getDimensions_identity)
  next
    case (Suc n)
    then obtain m where m: "for_loop [0..<n] ?body (identity 2) = Inr m" "rectangular m"
      "getDimensions m = (2 * 2 ^ n, 2 * 2 ^ n)" by blast
    have "\<exists>m'. ?body n m = Inr m' \<and> rectangular m' \<and>
            getDimensions m' = (2 * 2 ^ Suc n, 2 * 2 ^ Suc n)"
    proof (cases "n = q")
      case True
      from tensorProduct_dimensions [OF m(2) assms(1)] m(3) assms(2) True
      show ?thesis by simp
    next
      case False
      from tensorProduct_dimensions [OF m(2) rectangular_identity, of 2] m(3) False
      show ?thesis by (simp add: getDimensions_identity)
    qed
    with m(1) show ?case by (auto simp: for_loop_append bind_def)
  qed
  then show ?thesis by (simp add: expandSingleQubitGate_def)
qed

lemma applySingleQubitGate_mismatch:
  assumes "rectangular g" "getDimensions g = (2, 2)"
    and "length (amplitudes (state r)) = 2 ^ qubitCount r"
  shows "applySingleQubitGate r g q = Inl DimensionMismatch"
proof -
  from expandSingleQubitGate_dimensions [OF assms(1,2)]
  obtain m where m: "expandSingleQubitGate r g q = Inr m"
    "getDimensions m = (2 * 2 ^ qubitCount r, 2 * 2 ^ qubitCount r)" by blast
  have "length (amplitudes (state r)) \<noteq> snd (getDimensions m)"
    using assms(3) m(2) by simp
  then have "multiplyVector m (amplitudes (state r)) = Inl DimensionMismatch"
    by (simp add: multiplyVector_mismatch)
  then show ?thesis
    by (simp add: applySingleQubitGate_def m(1) applyGate_def bind_def)
qed

lemma rectangular_X: "rectangular QuantumGates_X \<and> getDimensions QuantumGates_X = (2, 2)"
  by (simp add: rectangular_def getDimensions_def QuantumGates_X_def)

lemma rectangular_H: "rectangular QuantumGates_H \<and> getDimensions QuantumGates_H = (2, 2)"
  by (simp add: rectangular_def getDimensions_def QuantumGates_H_def Let_def)

text \<open>
  C1. For a register whose state has \<open>2^n\<close> amplitudes and a rectangular \<open>2 \<times> 2\<close> gate,
  \<open>expandSingleQubitGate\<close> builds the operator with the leading extra \<open>I2\<close> factor, a matrix
  of \<open>2^(n+1)\<close> rows and columns. \<open>applySingleQubitGate\<close> then does not replace the amplitude
  vector by the operator-vector product: \<open>multiplyVector\<close> raises DimensionMismatch, for
  every qubit index.
\<close>

theorem applySingleQubitGate_raises:
  assumes "rectangular g" and "getDimensions g = (2, 2)"
    and "length (amplitudes (state r)) = 2 ^ qubitCount r"
  shows "(\<exists>fullGate. expandSingleQubitGate r g q = Inr fullGate \<and>
            getDimensions fullGate = (2 * 2 ^ qubitCount r, 2 * 2 ^ qubitCount r)) \<and>
         applySingleQubitGate r g q = Inl DimensionMismatch"
  using expandSingleQubitGate_dimensions [OF assms(1,2), of r q]
    applySingleQubitGate_mismatch [OF assms, of q]
  by blast

theorem applySingleQubitGate_raises_witness:
  "(\<exists>fullGate. expandSingleQubitGate
       \<lparr>state = \<lparr>amplitudes = [Complex_new 1 0, Complex_new 0 0]\<rparr>, qubitCount = 1\<rparr>
       QuantumGates_X 0 = Inr fullGate \<and> getDimensions fullGate = (4, 4)) \<and>
   applySingleQubitGate
       \<lparr>state = \<lparr>amplitudes = [Complex_new 1 0, Complex_new 0 0]\<rparr>, qubitCount = 1\<rparr>
       QuantumGates_X 0 = Inl DimensionMismatch"
  using applySingleQubitGate_raises
    [of QuantumGates_X "\<lparr>state = \<lparr>amplitudes = [Complex_new 1 0, Complex_new 0 0]\<rparr>, qubitCount = 1\<rparr>" 0]
    rectangular_X
  by simp


section \<open>Measuring the state \<open>|0...0>\<close>\<close>

lemma scan_zeros: "scan (replicate m 0) r c k = (if 0 < m \<and> r \<le> c then Some k else None)"
  by (induction m arbitrary: k) simp_all

lemma zero_state_probabilities:
  "map magnitudeSquared (amplitudes (zero_state n)) = 1 # replicate (2 ^ n - 1) 0"
proof -
  have "(replicate (2 ^ n) (Complex_new 0 0))[0 := Complex_new 1 0] =
        Complex_new 1 0 # replicate (2 ^ n - 1) (Complex_new 0 0)"
    by (cases "(2::nat) ^ n") simp_all
  then show ?thesis
    by (simp add: zero_state_def magnitudeSquared_def Complex_new_def)
qed

lemma measure_zero_state: "QuantumState_measure (zero_state n) random = (0, zero_state n)"
proof (cases "random \<le> 1")
  case True
  then have "scan (map magnitudeSquared (amplitudes (zero_state n))) random 0 0 = Some 0"
    by (simp add: zero_state_probabilities)
  then show ?thesis
    by (simp add: QuantumState_measure_def) (simp add: zero_state_def)
next
  case False
  then have "scan (map magnitudeSquared (amplitudes (zero_state n))) random 0 0 = None"
    by (simp add: zero_state_probabilities scan_zeros)
  then show ?thesis
    by (simp add: QuantumState_measure_def)
qed

lemma js_and_shr_zero: "js_and (js_shr 0 q) 1 = 0"
  by (simp add: js_and_def js_shr_def)

lemma measureQubit_zero_state:
  "state r = zero_state n \<Longrightarrow> measureQubit r q random = (0, r)"
  by (simp add: measureQubit_def measure_zero_state js_and_shr_zero)

lemma measure_loop_Suc:
  "measure_loop (Suc m) rnd start =
     (case measure_loop m rnd start of (result, reg, k) \<Rightarrow>
        (case measureQubit reg m (rnd k) of (b, reg') \<Rightarrow> (bit_string b @ result, reg', Suc k)))"
  by (simp add: measure_loop_def split: prod.splits)

lemma measure_loop_zero_state:
  "state r = zero_state n \<Longrightarrow>
   measure_loop m rnd ([], r, k) = (replicate m CHR ''0'', r, k + m)"
proof (induction m)
  case 0
  show ?case by (simp add: measure_loop_def)
next
  case (Suc m)
  then show ?case
    by (simp add: measure_loop_Suc measureQubit_zero_state bit_string_def replicate_append_same)
qed

lemma getQubitCount_power:
  assumes "length (amplitudes s) = 2 ^ n"
  shows "getQubitCount s = n"
proof -
  have n: "n < 2 ^ n" by (rule less_exp)
  have "[0..<2 ^ n] = [0..<n] @ n # [Suc n..<2 ^ n]"
    using n by (metis upt_add_eq_append upt_conv_Cons le_add_diff_inverse less_imp_le_nat zero_le)
  moreover have "takeWhile (\<lambda>j. (2::nat) ^ j < 2 ^ n) ([0..<n] @ n # [Suc n..<2 ^ n]) =
                 [0..<n] @ takeWhile (\<lambda>j. (2::nat) ^ j < 2 ^ n) (n # [Suc n..<2 ^ n])"
    by (rule takeWhile_append2) simp
  ultimately have "takeWhile (\<lambda>j. (2::nat) ^ j < 2 ^ n) [0..<2 ^ n] = [0..<n]"
    by simp
  then show ?thesis
    by (simp add: getQubitCount_def assms)
qed

section \<open>The bound of the measuring loop\<close>

text \<open>
  The loop \<open>for (let j = 0; j < Math.log2(len); j++)\<close> runs for the indices \<open>j\<close> with
  \<open>2^j < len\<close>, and these are the indices below \<open>getQubitCount\<close>.
\<close>

lemma log2_loop_condition:
  assumes "0 < len"
  shows "real j < log 2 (real len) \<longleftrightarrow> 2 ^ j < len"
proof -
  have "real j < log 2 (real len) \<longleftrightarrow> 2 powr real j < real len"
    using assms by (intro less_log_iff) simp_all
  also have "2 powr real j = (2::real) ^ j"
    by (simp add: powr_realpow)
  also have "(2::real) ^ j < real len \<longleftrightarrow> 2 ^ j < len"
    by (metis of_nat_less_iff of_nat_numeral of_nat_power)
  finally show ?thesis .
qed

lemma takeWhile_upt_length:
  assumes "\<And>i j. i \<le> j \<Longrightarrow> P j \<Longrightarrow> P i"
  shows "j < length (takeWhile P [0..<n]) \<longleftrightarrow> P j \<and> j < n"
proof (induction n)
  case 0
  show ?case by simp
next
  case (Suc n)
  show ?case
  proof (cases "\<forall>x\<in>set [0..<n]. P x")
    case True
    then have "takeWhile P ([0..<n] @ [n]) = [0..<n] @ takeWhile P [n]"
      by (intro takeWhile_append2) simp
    then have "takeWhile P [0..<Suc n] = [0..<n] @ (if P n then [n] else [])"
      by simp
    with True show ?thesis by (auto simp: less_Suc_eq)
  next
    case False
    then obtain x where x: "x < n" "\<not> P x" by auto
    then have "\<not> P n" using assms [of x n] by auto
    moreover have "takeWhile P ([0..<n] @ [n]) = takeWhile P [0..<n]"
      using x by (intro takeWhile_append1 [of x]) simp_all
    then have "takeWhile P [0..<Suc n] = takeWhile P [0..<n]"
      by simp
    ultimately show ?thesis using Suc by (auto simp: less_Suc_eq)
  qed
qed

lemma getQubitCount_iterations:
  "j < getQubitCount s \<longleftrightarrow> 2 ^ j < length (amplitudes s)"
proof -
  have "j < getQubitCount s \<longleftrightarrow> 2 ^ j < length (amplitudes s) \<and> j < length (amplitudes s)"
    unfolding getQubitCount_def
    by (rule takeWhile_upt_length) (meson le_less_trans power_increasing one_le_numeral)
  moreover have "j < length (amplitudes s)" if "2 ^ j < length (amplitudes s)"
    using that less_exp [of j] by (rule less_trans [rotated])
  ultimately show ?thesis by blast
qed

section \<open>Running a circuit\<close>

lemma QuantumState_new_power: "QuantumState_new (2 ^ n) = Inr (zero_state n)"
  by (simp add: QuantumState_new_def Let_def zero_state_def nat_power_eq)

lemma QuantumRegister_reset_zero:
  assumes "qubitCount r \<le> 30"
  shows "QuantumRegister_reset r = Inr (r\<lparr>state := zero_state (qubitCount r)\<rparr>)"
proof -
  have "js_shl 1 (qubitCount r) = 2 ^ qubitCount r"
    using assms by (intro js_shl_1) simp
  moreover have "QuantumState_new (2 ^ qubitCount r) = Inr (zero_state (qubitCount r))"
    by (rule QuantumState_new_power)
  ultimately show ?thesis
    by (simp add: QuantumRegister_reset_def bind_def)
qed

lemma QuantumRegister_getState_zero:
  assumes "state r = zero_state n"
  shows "QuantumRegister_getState r = Inr (zero_state n)"
proof -
  have "amplitudes (zero_state n) \<noteq> []"
    by (simp add: zero_state_def)
  then have "QuantumState_clone (zero_state n) = Inr (zero_state n)"
    by (rule QuantumState_clone_id)
  then show ?thesis
    by (simp add: QuantumRegister_getState_def assms)
qed

lemma getQubitCount_zero_state: "getQubitCount (zero_state n) = n"
  by (rule getQubitCount_power) (simp add: zero_state_def)

lemma replay_empty: "replay [] r = Inr r"
  by (simp add: replay_def)

text \<open>One trial of \<open>run\<close>, the body of its loop.\<close>

lemma run_trial:
  assumes "qubitCount (register c) = n" "n \<le> 30"
  shows "bind (QuantumCircuit_reset c) (\<lambda>c1.
         bind (replay (gates c1) (register c1)) (\<lambda>reg.
         bind (QuantumRegister_getState reg) (\<lambda>snapshot.
           let (result, reg', k') = measure_loop (getQubitCount snapshot) rnd ([], reg, k)
           in Inr (Map_set results result (Map_get results result + 1),
                   c1\<lparr>register := reg'\<rparr>, k')))) =
         Inr (Map_set results (replicate n CHR ''0'') (Map_get results (replicate n CHR ''0'') + 1),
              c\<lparr>register := (register c)\<lparr>state := zero_state n\<rparr>, gates := []\<rparr>, k + n)"
proof -
  let ?reg = "(register c)\<lparr>state := zero_state n\<rparr>"
  let ?c1 = "c\<lparr>register := ?reg, gates := []\<rparr>"
  have reset: "QuantumCircuit_reset c = Inr ?c1"
    using assms QuantumRegister_reset_zero [of "register c"]
    by (simp add: QuantumCircuit_reset_def bind_def)
  have get: "QuantumRegister_getState ?reg = Inr (zero_state n)"
    by (rule QuantumRegister_getState_zero) simp
  have loop: "measure_loop n rnd ([], ?reg, k) = (replicate n CHR ''0'', ?reg, k + n)"
    by (rule measure_loop_zero_state [where n = n]) simp
  show ?thesis
    by (simp add: reset replay_empty get getQubitCount_zero_state loop bind_def)
qed

lemma bind_return: "bind (Inr x) f = f x"
  by (simp add: bind_def)

lemma for_loop_snoc: "for_loop (xs @ [x]) body s = bind (for_loop xs body s) (body x)"
proof -
  have "for_loop [x] body = body x"
    by (rule ext) (simp split: sum.splits)
  then show ?thesis by (simp add: for_loop_append)
qed

lemma run_Suc:
  "run c (Suc t) rnd k0 =
     bind (run c t rnd k0) (\<lambda>(results, c, k).
         bind (QuantumCircuit_reset c) (\<lambda>c1.
         bind (replay (gates c1) (register c1)) (\<lambda>reg.
         bind (QuantumRegister_getState reg) (\<lambda>snapshot.
           let (result, reg', k') = measure_loop (getQubitCount snapshot) rnd ([], reg, k)
           in Inr (Map_set results result (Map_get results result + 1),
                   c1\<lparr>register := reg'\<rparr>, k')))))"
  by (simp add: run_def for_loop_snoc)

lemma run_result:
  assumes "qubitCount (register c) = n" "n \<le> 30"
  shows "run c trials rnd k =
     Inr (if trials = 0 then ([], c, k)
          else ([(replicate n CHR ''0'', trials)],
                c\<lparr>register := (register c)\<lparr>state := zero_state n\<rparr>, gates := []\<rparr>,
                k + trials * n))"
proof (induction trials)
  case 0
  show ?case by (simp add: run_def)
next
  case (Suc t)
  let ?c1 = "c\<lparr>register := (register c)\<lparr>state := zero_state n\<rparr>, gates := []\<rparr>"
  have c1: "qubitCount (register ?c1) = n" using assms(1) by simp
  have same: "?c1\<lparr>register := (register ?c1)\<lparr>state := zero_state n\<rparr>, gates := []\<rparr> = ?c1"
    by simp
  show ?case
  proof (cases "t = 0")
    case True
    have "run c (Suc t) rnd k =
          Inr (Map_set [] (replicate n CHR ''0'') (Map_get [] (replicate n CHR ''0'') + 1), ?c1, k + n)"
    proof -
      have ih: "run c t rnd k = Inr ([], c, k)" using Suc True by simp
      show ?thesis
        by (simp only: run_Suc ih bind_return case_prod_conv run_trial [OF assms])
    qed
    then show ?thesis using True by simp
  next
    case False
    let ?h = "[(replicate n CHR ''0'', t)]"
    have "run c (Suc t) rnd k =
          Inr (Map_set ?h (replicate n CHR ''0'') (Map_get ?h (replicate n CHR ''0'') + 1),
               ?c1\<lparr>register := (register ?c1)\<lparr>state := zero_state n\<rparr>, gates := []\<rparr>,
               k + t * n + n)"
    proof -
      have ih: "run c t rnd k = Inr (?h, ?c1, k + t * n)" using Suc False by simp
      show ?thesis
        by (simp only: run_Suc ih bind_return case_prod_conv run_trial [OF c1 assms(2)])
    qed
    then show ?thesis by (simp add: add.commute)
  qed
qed

lemma bit_string_length: "length (bit_string b) = 1"
  by (simp add: bit_string_def)

lemma measure_loop_counts:
  "measure_loop m rnd ([], reg, k) = (result, reg', k') \<Longrightarrow> length result = m \<and> k' = k + m"
proof (induction m arbitrary: result reg' k')
  case 0
  then show ?case by (simp add: measure_loop_def)
next
  case (Suc m)
  obtain result0 reg0 k0 where m: "measure_loop m rnd ([], reg, k) = (result0, reg0, k0)"
    by (cases "measure_loop m rnd ([], reg, k)") auto
  from Suc.IH [OF m] have "length result0 = m" "k0 = k + m" by simp_all
  with Suc.prems m show ?case
    by (auto simp: measure_loop_Suc bit_string_length split: prod.splits)
qed

lemma measure_loop_order:
  "j < m \<Longrightarrow>
   fst (measure_loop m rnd ([], reg, k)) ! (m - 1 - j) =
     hd (bit_string (fst (measureQubit (fst (snd (measure_loop j rnd ([], reg, k)))) j (rnd (k + j)))))"
proof (induction m)
  case 0
  then show ?case by simp
next
  case (Suc m)
  obtain result0 reg0 k0 where m: "measure_loop m rnd ([], reg, k) = (result0, reg0, k0)"
    by (cases "measure_loop m rnd ([], reg, k)") auto
  from measure_loop_counts [OF m] have len: "length result0 = m" and k0: "k0 = k + m" by simp_all
  obtain b reg1 where q: "measureQubit reg0 m (rnd k0) = (b, reg1)"
    by (cases "measureQubit reg0 m (rnd k0)") auto
  have next_loop: "measure_loop (Suc m) rnd ([], reg, k) = (bit_string b @ result0, reg1, Suc k0)"
    by (simp add: measure_loop_Suc m q)
  obtain ch where ch: "bit_string b = [ch]"
    by (cases "bit_string b") (use bit_string_length [of b] in auto)
  show ?case
  proof (cases "j = m")
    case True
    then show ?thesis
      using m q k0 by (simp add: next_loop ch)
  next
    case False
    with Suc.prems have j: "j < m" by simp
    then have "Suc m - 1 - j = Suc (m - 1 - j)" by simp
    then have "fst (measure_loop (Suc m) rnd ([], reg, k)) ! (Suc m - 1 - j) = result0 ! (m - 1 - j)"
      by (simp add: next_loop ch)
    with Suc.IH [OF j] m show ?thesis by simp
  qed
qed

text \<open>
  C6, as amended. For every circuit with qubit count \<open>n \<le> 30\<close> (in particular
  \<open>1 \<le> n \<le> 30\<close>) and every number of trials, \<open>run\<close> returns a histogram whose counts sum
  to the number of trials and whose keys are strings of \<open>0\<close> and \<open>1\<close> of length exactly \<open>n\<close>,
  each the string the measuring loop builds on the reset register; and the measuring loop
  puts the bit measured for qubit \<open>j\<close> at position \<open>n - 1 - j\<close>, so qubit \<open>n - 1\<close> is the
  first character.
\<close>

theorem run_histogram:
  assumes "qubitCount (register c) = n" and "n \<le> 30"
  shows "\<exists>h c' k'. run c trials rnd k = Inr (h, c', k') \<and>
           sum_list (map snd h) = trials \<and>
           (\<forall>key \<in> set (map fst h).
              length key = n \<and> set key \<subseteq> {CHR ''0'', CHR ''1''} \<and>
              (\<exists>k1. key = fst (measure_loop n rnd ([], (register c)\<lparr>state := zero_state n\<rparr>, k1)))) \<and>
           (\<forall>reg k1 j. j < n \<longrightarrow>
              fst (measure_loop n rnd ([], reg, k1)) ! (n - 1 - j) =
                hd (bit_string (fst (measureQubit (fst (snd (measure_loop j rnd ([], reg, k1)))) j
                                       (rnd (k1 + j))))))"
proof -
  let ?reg = "(register c)\<lparr>state := zero_state n\<rparr>"
  let ?zeros = "replicate n CHR ''0''"
  let ?h = "if trials = 0 then [] else [(?zeros, trials)]"
  have key: "?zeros = fst (measure_loop n rnd ([], ?reg, 0))"
    using measure_loop_zero_state [of ?reg n n rnd 0] by simp
  then have ex: "\<exists>k1. ?zeros = fst (measure_loop n rnd ([], ?reg, k1))" by (rule exI)
  have keys: "\<forall>key \<in> set (map fst ?h).
              length key = n \<and> set key \<subseteq> {CHR ''0'', CHR ''1''} \<and>
              (\<exists>k1. key = fst (measure_loop n rnd ([], ?reg, k1)))"
    by (cases "trials = 0") (auto simp: ex)
  have counts: "sum_list (map snd ?h) = trials" by simp
  have order: "\<forall>reg k1 j. j < n \<longrightarrow>
              fst (measure_loop n rnd ([], reg, k1)) ! (n - 1 - j) =
                hd (bit_string (fst (measureQubit (fst (snd (measure_loop j rnd ([], reg, k1)))) j
                                       (rnd (k1 + j)))))"
    using measure_loop_order by blast
  have "\<exists>c' k'. run c trials rnd k = Inr (?h, c', k')"
    using run_result [OF assms, of trials rnd k] by (cases "trials = 0") simp_all
  with keys counts order show ?thesis by blast
qed

theorem run_histogram_witness:
  "\<exists>h c' k'.
     run \<lparr>register = \<lparr>state = zero_state 2, qubitCount = 2\<rparr>, gates = []\<rparr> 3 (constant_draws (1 / 2)) 0 =
       Inr (h, c', k') \<and>
     sum_list (map snd h) = 3 \<and> list_all (\<lambda>key. length key = 2) (map fst h)"
proof -
  let ?c = "\<lparr>register = \<lparr>state = zero_state 2, qubitCount = 2\<rparr>, gates = []\<rparr>"
  have q: "qubitCount (register ?c) = 2" by simp
  have le: "(2::nat) \<le> 30" by simp
  from run_histogram [OF q le, of 3 "constant_draws (1 / 2)" 0]
  show ?thesis unfolding list_all_iff by blast
qed

text \<open>
  C6 as stated fails beyond 30 qubits: \<open>1 << 32\<close> is 1, so the circuit constructed with
  32 qubits has a state of one amplitude, \<open>Math.log2(1)\<close> is 0, no qubit is measured and
  the key of every trial is the empty string.
\<close>

theorem run_32_qubits:
  "QuantumCircuit_new 32 =
     Inr \<lparr>register = \<lparr>state = \<lparr>amplitudes = [Complex_new 1 0]\<rparr>, qubitCount = 32\<rparr>, gates = []\<rparr> \<and>
   run \<lparr>register = \<lparr>state = \<lparr>amplitudes = [Complex_new 1 0]\<rparr>, qubitCount = 32\<rparr>, gates = []\<rparr>
       1 (constant_draws 0) 0 =
     Inr ([('''', 1)],
          \<lparr>register = \<lparr>state = \<lparr>amplitudes = [Complex_new 1 0]\<rparr>, qubitCount = 32\<rparr>, gates = []\<rparr>, 0) \<and>
   length '''' \<noteq> qubitCount \<lparr>state = \<lparr>amplitudes = [Complex_new 1 0]\<rparr>, qubitCount = 32\<rparr>"
proof (intro conjI)
  show "QuantumCircuit_new 32 =
     Inr \<lparr>register = \<lparr>state = \<lparr>amplitudes = [Complex_new 1 0]\<rparr>, qubitCount = 32\<rparr>, gates = []\<rparr>"
    by code_simp
  show "run \<lparr>register = \<lparr>state = \<lparr>amplitudes = [Complex_new 1 0]\<rparr>, qubitCount = 32\<rparr>, gates = []\<rparr>
       1 (constant_draws 0) 0 =
     Inr ([('''', 1)],
          \<lparr>register = \<lparr>state = \<lparr>amplitudes = [Complex_new 1 0]\<rparr>, qubitCount = 32\<rparr>, gates = []\<rparr>, 0)"
    by code_simp
  show "length '''' \<noteq> qubitCount \<lparr>state = \<lparr>amplitudes = [Complex_new 1 0]\<rparr>, qubitCount = 32\<rparr>"
    by simp
qed

section \<open>The controlled-NOT operator\<close>

lemma sint_small:
  assumes "0 \<le> z" "z < 2 ^ 31"
  shows "sint (word_of_int z :: 32 word) = z"
proof -
  have "sint (word_of_int z :: 32 word) = signed_take_bit 31 z"
    by (simp only: sint_sbintrunc') simp
  also have "\<dots> = z"
    using assms by (intro signed_take_bit_int_eq_self) simp_all
  finally show ?thesis .
qed

lemma js_shr_small:
  assumes "i < 2 ^ 31" "c < 32"
  shows "js_shr (int i) c = int (drop_bit c i)"
proof -
  have "int i < 2 ^ 31" using assms(1) by (metis of_nat_less_iff of_nat_numeral of_nat_power)
  then have "sint (word_of_int (int i) :: 32 word) = int i"
    by (intro sint_small) simp_all
  then show ?thesis
    using assms(2) by (simp add: js_shr_def sint_signed_drop_bit_eq drop_bit_of_nat)
qed

lemma js_and_1_nat: "js_and (int m) 1 = (if odd m then 1 else 0)"
proof -
  have parity: "even (word_of_int (int m) :: 32 word) \<longleftrightarrow> even m"
    by (simp add: even_of_nat)
  show ?thesis
  proof (cases "odd m")
    case True
    with parity have "odd (word_of_int (int m) :: 32 word)" by blast
    then have "(word_of_int (int m) :: 32 word) AND 1 = 1"
      by (metis and_one_eq odd_iff_mod_2_eq_one)
    with True show ?thesis by (simp add: js_and_def)
  next
    case False
    with parity have "even (word_of_int (int m) :: 32 word)" by blast
    then have "(word_of_int (int m) :: 32 word) AND 1 = 0"
      by (metis and_one_eq even_iff_mod_2_eq_zero)
    with False show ?thesis by (simp add: js_and_def)
  qed
qed

lemma control_bit:
  assumes "i < 2 ^ 31" "c < 32"
  shows "js_and (js_shr (int i) c) 1 \<noteq> 0 \<longleftrightarrow> bit i c"
  using assms by (simp add: js_shr_small js_and_1_nat bit_iff_odd_drop_bit)

lemma flip_less:
  assumes "i < 2 ^ n" "t < n"
  shows "i XOR 2 ^ t < (2::nat) ^ n"
proof -
  have "int i XOR 2 ^ t < 2 ^ n"
  proof (rule XOR_upper)
    show "0 \<le> int i" by simp
    show "int i < 2 ^ n" using assms(1) by (metis of_nat_less_iff of_nat_numeral of_nat_power)
    show "(2::int) ^ t < 2 ^ n" using assms(2) by (intro power_strict_increasing) simp_all
  qed
  moreover have "int (i XOR 2 ^ t) = int i XOR 2 ^ t"
    by (simp add: of_nat_xor_eq)
  ultimately have "int (i XOR 2 ^ t) < 2 ^ n" by simp
  then show ?thesis by (metis of_nat_less_iff of_nat_numeral of_nat_power)
qed

lemma flip_bit_target: "bit (i XOR 2 ^ t) t \<longleftrightarrow> \<not> bit (i::nat) t"
  by (simp add: bit_xor_iff bit_exp_iff)

lemma flip_bit_other: "c \<noteq> t \<Longrightarrow> bit (i XOR 2 ^ t) c \<longleftrightarrow> bit (i::nat) c"
  by (simp add: bit_xor_iff bit_exp_iff)

lemma flip_neq: "i XOR 2 ^ t \<noteq> (i::nat)"
  using flip_bit_target [of i t] by metis

lemma flip_flip: "(i XOR 2 ^ t) XOR 2 ^ t = (i::nat)"
  by (simp add: xor.assoc)

lemma js_xor_small:
  assumes "i < 2 ^ n" "t < n" "n \<le> 30"
  shows "js_xor (int i) (js_shl 1 t) = int (i XOR 2 ^ t)"
proof -
  have shl: "js_shl 1 t = 2 ^ t" using assms(2,3) by (intro js_shl_1) simp
  have "i XOR 2 ^ t < 2 ^ n" using assms(1,2) by (rule flip_less)
  also have "(2::nat) ^ n < 2 ^ 31" using assms(3) by (intro power_strict_increasing) simp_all
  finally have "int (i XOR 2 ^ t) < 2 ^ 31"
    by (metis of_nat_less_iff of_nat_numeral of_nat_power)
  then have "sint (word_of_int (int (i XOR 2 ^ t)) :: 32 word) = int (i XOR 2 ^ t)"
    by (intro sint_small) simp_all
  moreover have "(word_of_int (int i) :: 32 word) XOR word_of_int (2 ^ t) =
                 word_of_int (int (i XOR 2 ^ t))"
  proof -
    have "int (i XOR 2 ^ t) = int i XOR 2 ^ t"
      by (simp add: of_nat_xor_eq)
    then show ?thesis
      by (simp only: of_int_xor_eq)
  qed
  ultimately show ?thesis by (simp add: js_xor_def shl)
qed

lemma splice_update:
  assumes "m < length a" "length a = length b"
  shows "(take m a @ drop m b)[m := a ! m] = take (Suc m) a @ drop (Suc m) b"
    and "(take m a @ drop m b) ! m = b ! m"
proof -
  have d: "drop m b = b ! m # drop (Suc m) b"
    using assms by (simp add: Cons_nth_drop_Suc)
  have len: "length (take m a) = m" using assms(1) by simp
  show "(take m a @ drop m b)[m := a ! m] = take (Suc m) a @ drop (Suc m) b"
    using assms(1) by (simp add: list_update_append len d take_Suc_conv_app_nth)
  show "(take m a @ drop m b) ! m = b ! m"
    using assms(1) by (simp add: nth_append d min_def)
qed

lemma swap_rows_prefix:
  assumes "table N N d" "i < N" "f < N" "i \<noteq> f" "m \<le> N"
  shows "for_loop [0..<m] (\<lambda>j d'. swap_entry d' i (int f) j) d =
         Inr (d[i := take m (d ! f) @ drop m (d ! i), f := take m (d ! i) @ drop m (d ! f)])"
  using assms(5)
proof (induction m)
  case 0
  show ?case by simp
next
  case (Suc m)
  let ?a = "d ! f" and ?b = "d ! i"
  let ?dm = "d[i := take m ?a @ drop m ?b, f := take m ?b @ drop m ?a]"
  have len: "length d = N" "length ?a = N" "length ?b = N"
    using assms(1-3) by (simp_all add: table_def)
  have m: "m < N" using Suc.prems by simp
  have row_i: "?dm ! i = take m ?a @ drop m ?b"
    using assms(2,4) len by simp
  have row_f: "?dm ! f = take m ?b @ drop m ?a"
    using assms(3) len by simp
  have temp: "?dm ! i ! m = ?b ! m"
    using splice_update(2) [of m ?a ?b] m len by (simp add: row_i)
  have other: "?dm ! f ! m = ?a ! m"
    using splice_update(2) [of m ?b ?a] m len by (simp add: row_f)
  have new_i: "(?dm ! i)[m := ?a ! m] = take (Suc m) ?a @ drop (Suc m) ?b"
    using splice_update(1) [of m ?a ?b] m len by (simp add: row_i)
  have new_f: "(?dm ! f)[m := ?b ! m] = take (Suc m) ?b @ drop (Suc m) ?a"
    using splice_update(1) [of m ?b ?a] m len by (simp add: row_f)
  have step: "swap_entry ?dm i (int f) m =
        Inr (d[i := take (Suc m) ?a @ drop (Suc m) ?b, f := take (Suc m) ?b @ drop (Suc m) ?a])"
  proof -
    have "swap_entry ?dm i (int f) m =
          Inr ((?dm[i := (?dm ! i)[m := ?dm ! f ! m]])[f := (?dm ! f)[m := ?dm ! i ! m]])"
      using assms(3,4) len by (simp add: swap_entry_def Let_def)
    also have "(?dm[i := (?dm ! i)[m := ?dm ! f ! m]])[f := (?dm ! f)[m := ?dm ! i ! m]] =
               (?dm[i := take (Suc m) ?a @ drop (Suc m) ?b])[f := take (Suc m) ?b @ drop (Suc m) ?a]"
      by (simp only: temp other new_i new_f)
    also have "\<dots> = d[i := take (Suc m) ?a @ drop (Suc m) ?b, f := take (Suc m) ?b @ drop (Suc m) ?a]"
      using assms(4) by (simp add: list_update_swap [of i f])
    finally show ?thesis .
  qed
  have "for_loop [0..<m] (\<lambda>j d'. swap_entry d' i (int f) j) d = Inr ?dm"
    using Suc by simp
  then show ?case
    by (simp only: upt_Suc_append [OF le0] for_loop_snoc bind_return step)
qed

lemma swap_rows:
  assumes "table N N d" "i < N" "f < N" "i \<noteq> f"
  shows "for_loop [0..<N] (\<lambda>j d'. swap_entry d' i (int f) j) d = Inr (d[i := d ! f, f := d ! i])"
proof -
  have "length (d ! f) = N" "length (d ! i) = N"
    using assms(1-3) by (simp_all add: table_def)
  with swap_rows_prefix [OF assms, of N] show ?thesis by simp
qed

lemma half_swapped_less:
  "r < 2 ^ n \<Longrightarrow> t < n \<Longrightarrow> half_swapped c t m r < 2 ^ n"
  by (simp add: half_swapped_def flip_less)

lemma half_swapped_none: "half_swapped c t 0 r = r"
  by (simp add: half_swapped_def)

lemma half_swapped_all:
  "r < 2 ^ n \<Longrightarrow> t < n \<Longrightarrow> half_swapped c t (2 ^ n) r = r"
  by (simp add: half_swapped_def flip_less)

lemma half_swapped_skip:
  assumes "\<not> bit m c" "c \<noteq> t"
  shows "half_swapped c t (Suc m) r = half_swapped c t m r"
proof (cases "bit r c")
  case True
  then have "r \<noteq> m" using assms(1) by blast
  moreover have "bit (r XOR 2 ^ t) c" using True assms(2) by (simp add: flip_bit_other)
  then have "r XOR 2 ^ t \<noteq> m" using assms(1) by blast
  ultimately show ?thesis by (auto simp: half_swapped_def less_Suc_eq)
next
  case False
  then show ?thesis by (simp add: half_swapped_def)
qed

lemma half_swapped_swap:
  assumes "bit m c" "c \<noteq> t"
  shows "half_swapped c t (Suc m) r =
     (if r = m then half_swapped c t m (m XOR 2 ^ t)
      else if r = m XOR 2 ^ t then half_swapped c t m m
      else half_swapped c t m r)"
proof -
  let ?f = "m XOR 2 ^ t"
  have f_bit: "bit ?f c" using assms by (simp add: flip_bit_other)
  have f_neq: "?f \<noteq> m" by (rule flip_neq)
  have f_flip: "?f XOR 2 ^ t = m" by (rule flip_flip)
  consider "r = m" | "r = ?f" | "r \<noteq> m" "r \<noteq> ?f" by blast
  then show ?thesis
  proof cases
    case 1
    then show ?thesis
      using assms(1) f_bit f_neq f_flip by (auto simp: half_swapped_def less_Suc_eq)
  next
    case 2
    then show ?thesis
      using assms(1) f_bit f_neq f_flip by (auto simp: half_swapped_def less_Suc_eq)
  next
    case 3
    have "r XOR 2 ^ t \<noteq> m"
      using 3(2) flip_flip [of r t] by metis
    then show ?thesis
      using 3 by (auto simp: half_swapped_def less_Suc_eq)
  qed
qed

lemma identity_table: "table n n (data (identity n))"
  by (simp add: table_def identity_def)

lemma createCNOT_prefix:
  assumes "n \<le> 30" "c < n" "t < n" "c \<noteq> t" "m \<le> 2 ^ n"
  shows "for_loop [0..<m] (\<lambda>i d.
              if js_and (js_shr (int i) c) 1 \<noteq> 0 then
                let flipped = js_xor (int i) (js_shl 1 t) in
                if int i \<noteq> flipped then for_loop [0..<2 ^ n] (\<lambda>j d'. swap_entry d' i flipped j) d
                else Inr d
              else Inr d)
           (data (identity (2 ^ n))) =
         Inr (map (\<lambda>r. data (identity (2 ^ n)) ! half_swapped c t m r) [0..<2 ^ n])"
  using assms(5)
proof (induction m)
  case 0
  have "map (\<lambda>r. data (identity (2 ^ n)) ! r) [0..<2 ^ n] = data (identity (2 ^ n))"
    by (rule nth_equalityI) (simp_all add: identity_def)
  then show ?case by (simp add: half_swapped_none)
next
  case (Suc m)
  let ?N = "(2::nat) ^ n"
  let ?I = "data (identity ?N)"
  let ?body = "\<lambda>i d.
              if js_and (js_shr (int i) c) 1 \<noteq> 0 then
                let flipped = js_xor (int i) (js_shl 1 t) in
                if int i \<noteq> flipped then for_loop [0..<?N] (\<lambda>j d'. swap_entry d' i flipped j) d
                else Inr d
              else Inr d"
  let ?dm = "map (\<lambda>r. ?I ! half_swapped c t m r) [0..<?N]"
  let ?f = "m XOR 2 ^ t"
  have m: "m < ?N" using Suc.prems by simp
  have "?N < 2 ^ 31" using assms(1) by (intro power_strict_increasing) simp_all
  with m have m31: "m < 2 ^ 31" by simp
  have control: "js_and (js_shr (int m) c) 1 \<noteq> 0 \<longleftrightarrow> bit m c"
    using m31 assms(1,2) by (intro control_bit) simp_all
  have flipped: "js_xor (int m) (js_shl 1 t) = int ?f"
    using m assms(3,1) by (rule js_xor_small)
  have f: "?f < ?N" using m assms(3) by (rule flip_less)
  have ih: "for_loop [0..<m] ?body ?I = Inr ?dm" using Suc by simp
  have step: "?body m ?dm = Inr (map (\<lambda>r. ?I ! half_swapped c t (Suc m) r) [0..<?N])"
  proof (cases "bit m c")
    case False
    then show ?thesis
      using control assms(4) by (simp add: half_swapped_skip)
  next
    case True
    have tab: "table ?N ?N ?dm"
      using identity_table [of ?N] assms(3)
      by (simp add: table_def half_swapped_less)
    have "?body m ?dm = for_loop [0..<?N] (\<lambda>j d'. swap_entry d' m (int ?f) j) ?dm"
      using control True flip_neq [of m t] by (simp add: flipped Let_def)
    also have "\<dots> = Inr (?dm[m := ?dm ! ?f, ?f := ?dm ! m])"
      using tab m f flip_neq [of m t] by (intro swap_rows) auto
    also have "?dm[m := ?dm ! ?f, ?f := ?dm ! m] =
               map (\<lambda>r. ?I ! half_swapped c t (Suc m) r) [0..<?N]"
    proof (rule nth_equalityI)
      show "length (?dm[m := ?dm ! ?f, ?f := ?dm ! m]) =
            length (map (\<lambda>r. ?I ! half_swapped c t (Suc m) r) [0..<?N])"
        by simp
    next
      fix r assume "r < length (?dm[m := ?dm ! ?f, ?f := ?dm ! m])"
      then have r: "r < ?N" by simp
      show "?dm[m := ?dm ! ?f, ?f := ?dm ! m] ! r =
            map (\<lambda>r. ?I ! half_swapped c t (Suc m) r) [0..<?N] ! r"
        using r m f True assms(4) flip_neq [of m t]
        by (simp add: nth_list_update half_swapped_swap)
    qed
    finally show ?thesis .
  qed
  show ?case
    by (simp only: upt_Suc_append [OF le0] for_loop_snoc ih bind_return step)
qed

lemma createCNOT_identity:
  assumes "qubitCount r \<le> 30" "c < qubitCount r" "t < qubitCount r" "c \<noteq> t"
  shows "createCNOT r c t = Inr (identity (2 ^ qubitCount r))"
proof -
  let ?n = "qubitCount r"
  have "js_shl 1 ?n = 2 ^ ?n" using assms(1) by (intro js_shl_1) simp
  then have sz: "nat (js_shl 1 ?n) = 2 ^ ?n" by (simp add: nat_power_eq)
  have "map (\<lambda>k. data (identity (2 ^ ?n)) ! half_swapped c t (2 ^ ?n) k) [0..<2 ^ ?n] =
        data (identity (2 ^ ?n))"
    using assms(3) by (intro nth_equalityI) (simp_all add: half_swapped_all identity_def)
  with createCNOT_prefix [OF assms(1) assms(2) assms(3) assms(4), of "2 ^ ?n"]
  have loop: "for_loop [0..<2 ^ ?n] (\<lambda>i d.
              if js_and (js_shr (int i) c) 1 \<noteq> 0 then
                let flipped = js_xor (int i) (js_shl 1 t) in
                if int i \<noteq> flipped then for_loop [0..<2 ^ ?n] (\<lambda>j d'. swap_entry d' i flipped j) d
                else Inr d
              else Inr d)
           (data (identity (2 ^ ?n))) = Inr (data (identity (2 ^ ?n)))"
    by simp
  show ?thesis
    unfolding createCNOT_def Let_def sz
    using loop [unfolded Let_def] by (simp add: bind_def)
qed

lemma cnot_permutation_not_identity:
  assumes "c < n" "t < n" "c \<noteq> t"
  shows "identity (2 ^ n) \<noteq> cnot_permutation n c t"
proof
  assume eq: "identity (2 ^ n) = cnot_permutation n c t"
  let ?k = "(2::nat) ^ c"
  have k: "?k < 2 ^ n" using assms(1) by (intro power_strict_increasing) simp_all
  have "cnot_index c t ?k = ?k XOR 2 ^ t"
    by (simp add: cnot_index_def bit_exp_iff)
  then have moved: "cnot_index c t ?k \<noteq> ?k"
    using flip_neq [of ?k t] by simp
  have "data (identity (2 ^ n)) ! ?k ! ?k = Complex_new 1 0"
    using k by (simp add: identity_def)
  moreover have "data (cnot_permutation n c t) ! ?k ! ?k = Complex_new 0 0"
    using k moved by (simp add: cnot_permutation_def)
  ultimately show False
    using eq by (simp add: Complex_new_def)
qed

text \<open>
  C2. The matrix \<open>createCNOT\<close> builds is not the controlled-NOT permutation operator. Both
  indices of a pair \<open>i\<close>, \<open>i XOR (1 << target)\<close> have the control bit set, so the loop visits
  both and swaps the two rows twice: for every register of at most 30 qubits and every
  pair \<open>control \<noteq> target\<close> below the qubit count, the result is the identity matrix, which
  differs from the permutation operator of the specification (at row and column
  \<open>2^control\<close>).
\<close>

theorem createCNOT_returns_identity:
  assumes "qubitCount r \<le> 30" and "control < qubitCount r" and "target < qubitCount r"
    and "control \<noteq> target"
  shows "createCNOT r control target = Inr (identity (2 ^ qubitCount r)) \<and>
         identity (2 ^ qubitCount r) \<noteq> cnot_permutation (qubitCount r) control target"
  using createCNOT_identity [OF assms] cnot_permutation_not_identity [OF assms(2) assms(3) assms(4)]
  by simp

theorem createCNOT_returns_identity_witness:
  "createCNOT \<lparr>state = zero_state 2, qubitCount = 2\<rparr> 0 1 = Inr (identity 4) \<and>
   identity 4 \<noteq> cnot_permutation 2 0 1"
  using createCNOT_returns_identity [of "\<lparr>state = zero_state 2, qubitCount = 2\<rparr>" 0 1]
  by simp

section \<open>Replay of the gate log\<close>

lemma QuantumCircuit_reset_gates:
  "QuantumCircuit_reset (c\<lparr>gates := gateLog\<rparr>) = QuantumCircuit_reset (c\<lparr>gates := []\<rparr>)"
  by (simp add: QuantumCircuit_reset_def)

lemma run_first_trial:
  "run (c\<lparr>gates := gateLog\<rparr>) (Suc 0) rnd k = run (c\<lparr>gates := []\<rparr>) (Suc 0) rnd k"
proof -
  have "run (c\<lparr>gates := gateLog\<rparr>) 0 rnd k = Inr ([], c\<lparr>gates := gateLog\<rparr>, k)"
    and "run (c\<lparr>gates := []\<rparr>) 0 rnd k = Inr ([], c\<lparr>gates := []\<rparr>, k)"
    by (simp_all add: run_def)
  then show ?thesis
    by (simp only: run_Suc bind_return case_prod_conv QuantumCircuit_reset_gates [of gateLog c])
qed

text \<open>
  C3. \<open>run\<close> does not replay the gate log. Each trial calls the circuit's \<open>reset()\<close>,
  which clears the log before the replay loop reads it: for at least one trial the result
  of \<open>run\<close> is the same for every content of the log. After \<open>addCNOT(0, 1)\<close> on a 2-qubit
  circuit the log holds one record, and \<open>run(1)\<close> returns with an empty log. After
  \<open>addCNOT(0, 0)\<close> on a 1-qubit circuit, replaying the logged record on the reset register
  and measuring gives the key \<open>1\<close>, and \<open>run(1)\<close> returns the key \<open>0\<close>.
\<close>

theorem run_ignores_gate_log:
  "run (c\<lparr>gates := gateLog\<rparr>) (Suc t) rnd k = run (c\<lparr>gates := []\<rparr>) (Suc t) rnd k \<and>
   addCNOT \<lparr>register = \<lparr>state = zero_state 2, qubitCount = 2\<rparr>, gates = []\<rparr> 0 1 =
     Inr \<lparr>register = \<lparr>state = zero_state 2, qubitCount = 2\<rparr>,
          gates = [\<lparr>gate = createCNOTMatrix, qubits = [0, 1]\<rparr>]\<rparr> \<and>
   QuantumCircuit_reset \<lparr>register = \<lparr>state = zero_state 2, qubitCount = 2\<rparr>,
          gates = [\<lparr>gate = createCNOTMatrix, qubits = [0, 1]\<rparr>]\<rparr> =
     Inr \<lparr>register = \<lparr>state = zero_state 2, qubitCount = 2\<rparr>, gates = []\<rparr> \<and>
   run \<lparr>register = \<lparr>state = zero_state 2, qubitCount = 2\<rparr>,
        gates = [\<lparr>gate = createCNOTMatrix, qubits = [0, 1]\<rparr>]\<rparr> 1 (constant_draws (1 / 2)) 0 =
     Inr ([(''00'', 1)], \<lparr>register = \<lparr>state = zero_state 2, qubitCount = 2\<rparr>, gates = []\<rparr>, 2) \<and>
   addCNOT \<lparr>register = \<lparr>state = zero_state 1, qubitCount = 1\<rparr>, gates = []\<rparr> 0 0 =
     Inr \<lparr>register = \<lparr>state = \<lparr>amplitudes = [Complex_new 0 0, Complex_new 1 0]\<rparr>, qubitCount = 1\<rparr>,
          gates = [\<lparr>gate = createCNOTMatrix, qubits = [0, 0]\<rparr>]\<rparr> \<and>
   replay [\<lparr>gate = createCNOTMatrix, qubits = [0, 0]\<rparr>] \<lparr>state = zero_state 1, qubitCount = 1\<rparr> =
     Inr \<lparr>state = \<lparr>amplitudes = [Complex_new 0 0, Complex_new 1 0]\<rparr>, qubitCount = 1\<rparr> \<and>
   measure_loop 1 (constant_draws (1 / 2))
       ([], \<lparr>state = \<lparr>amplitudes = [Complex_new 0 0, Complex_new 1 0]\<rparr>, qubitCount = 1\<rparr>, 0) =
     (''1'', \<lparr>state = \<lparr>amplitudes = [Complex_new 0 0, Complex_new 1 0]\<rparr>, qubitCount = 1\<rparr>, 1) \<and>
   run \<lparr>register = \<lparr>state = \<lparr>amplitudes = [Complex_new 0 0, Complex_new 1 0]\<rparr>, qubitCount = 1\<rparr>,
        gates = [\<lparr>gate = createCNOTMatrix, qubits = [0, 0]\<rparr>]\<rparr> 1 (constant_draws (1 / 2)) 0 =
     Inr ([(''0'', 1)], \<lparr>register = \<lparr>state = zero_state 1, qubitCount = 1\<rparr>, gates = []\<rparr>, 1)"
proof (intro conjI)
  show "run (c\<lparr>gates := gateLog\<rparr>) (Suc t) rnd k = run (c\<lparr>gates := []\<rparr>) (Suc t) rnd k"
  proof (induction t)
    case 0
    show ?case by (rule run_first_trial)
  next
    case (Suc t)
    show ?case by (simp only: run_Suc [of _ "Suc t"] Suc)
  qed
qed code_simp+

section \<open>The Bell-state scenario\<close>

text \<open>
  C4. On the 2-qubit circuit \<open>addHadamard(0)\<close> raises DimensionMismatch, so the scenario
  does not reach \<open>run\<close>. If the caller goes on after the exception, \<open>addCNOT(0, 1)\<close> succeeds
  and \<open>run(1000)\<close> returns the single key \<open>00\<close> with count 1000, for every sequence of random
  draws: the key \<open>11\<close> never occurs.
\<close>

theorem addHadamard_raises:
  "QuantumCircuit_new 2 = Inr \<lparr>register = \<lparr>state = zero_state 2, qubitCount = 2\<rparr>, gates = []\<rparr> \<and>
   addHadamard \<lparr>register = \<lparr>state = zero_state 2, qubitCount = 2\<rparr>, gates = []\<rparr> 0 =
     Inl DimensionMismatch \<and>
   addCNOT \<lparr>register = \<lparr>state = zero_state 2, qubitCount = 2\<rparr>, gates = []\<rparr> 0 1 =
     Inr \<lparr>register = \<lparr>state = zero_state 2, qubitCount = 2\<rparr>,
          gates = [\<lparr>gate = createCNOTMatrix, qubits = [0, 1]\<rparr>]\<rparr> \<and>
   run \<lparr>register = \<lparr>state = zero_state 2, qubitCount = 2\<rparr>,
        gates = [\<lparr>gate = createCNOTMatrix, qubits = [0, 1]\<rparr>]\<rparr> 1000 rnd k =
     Inr ([(''00'', 1000)], \<lparr>register = \<lparr>state = zero_state 2, qubitCount = 2\<rparr>, gates = []\<rparr>,
          k + 2000)"
proof (intro conjI)
  show "QuantumCircuit_new 2 = Inr \<lparr>register = \<lparr>state = zero_state 2, qubitCount = 2\<rparr>, gates = []\<rparr>"
    by code_simp
  have "applySingleQubitGate \<lparr>state = zero_state 2, qubitCount = 2\<rparr> QuantumGates_H 0 =
          Inl DimensionMismatch"
    using rectangular_H by (intro applySingleQubitGate_mismatch) (simp_all add: zero_state_def)
  then show "addHadamard \<lparr>register = \<lparr>state = zero_state 2, qubitCount = 2\<rparr>, gates = []\<rparr> 0 =
     Inl DimensionMismatch"
    by (simp add: addHadamard_def bind_def)
  show "addCNOT \<lparr>register = \<lparr>state = zero_state 2, qubitCount = 2\<rparr>, gates = []\<rparr> 0 1 =
     Inr \<lparr>register = \<lparr>state = zero_state 2, qubitCount = 2\<rparr>,
          gates = [\<lparr>gate = createCNOTMatrix, qubits = [0, 1]\<rparr>]\<rparr>"
    by code_simp
  have "replicate 2 CHR ''0'' = ''00''" by (simp add: numeral_2_eq_2)
  then show "run \<lparr>register = \<lparr>state = zero_state 2, qubitCount = 2\<rparr>,
        gates = [\<lparr>gate = createCNOTMatrix, qubits = [0, 1]\<rparr>]\<rparr> 1000 rnd k =
     Inr ([(''00'', 1000)], \<lparr>register = \<lparr>state = zero_state 2, qubitCount = 2\<rparr>, gates = []\<rparr>,
          k + 2000)"
    using run_result [of "\<lparr>register = \<lparr>state = zero_state 2, qubitCount = 2\<rparr>,
        gates = [\<lparr>gate = createCNOTMatrix, qubits = [0, 1]\<rparr>]\<rparr>" 2 1000 rnd k]
    by simp
qed

end
